theory Spec2Isabelle
  imports Main "HOL-Library.Word" "HOL-Library.Sublist"
begin

section \<open>Email tracking server: the data model\<close>

text \<open>
  The server keeps four tables (emails, opens, links, clicks) and answers eight routes.
  Two variants of the server exist: \<^verbatim>\<open>index.js\<close> on better-sqlite3, every query
  with bound parameters and a schema with foreign keys, and a second file on sql.js, whose
  lookups paste the request text into the SQL and whose schema has no foreign key. Definitions without a suffix follow \<^verbatim>\<open>index.js\<close>; those ending
  in \<open>_sqljs\<close> follow the second file.

  A row is a record, a table the list of its rows in insertion order. The columns are
  named with the alias the queries of the source give their table
  (\<open>e\<close>, \<open>o\<close>, \<open>l\<close>, \<open>c\<close>). A TEXT column that the request body fills is
  nullable; the ids and the columns filled from the path, the headers and the clock are
  not. A timestamp is what CURRENT\_TIMESTAMP stores, as seconds (UTC).
\<close>

type_synonym byte = "8 word"
type_synonym timestamp = nat

record email_row =
  e_id :: string
  e_subject :: "string option"
  e_recipient :: "string option"
  e_sent_at :: timestamp
  e_user_email :: "string option"

record open_row =
  o_id :: nat
  o_email_id :: string
  o_opened_at :: timestamp
  o_ip_address :: string
  o_user_agent :: string

record link_row =
  l_id :: string
  l_email_id :: "string option"
  l_original_url :: "string option"
  l_created_at :: timestamp

record click_row =
  c_id :: nat
  c_link_id :: string
  c_clicked_at :: timestamp
  c_ip_address :: string
  c_user_agent :: string

record store =
  emails :: "email_row list"
  opens :: "open_row list"
  links :: "link_row list"
  clicks :: "click_row list"

text \<open>
  What a handler reads of the request (\<open>req.headers\<close>, \<open>req.ip\<close>,
  \<open>req.protocol\<close>, \<open>req.get('host')\<close>), of the process environment, and what the
  storage engine does while the request runs: the clock it stamps a row with, and whether
  a read or a write raises. Every storage call of the source stands in a \<open>try\<close>; the
  two flags are the branch taken there.
\<close>

record request =
  hdr_x_forwarded_for :: "string option"
  hdr_user_agent :: "string option"
  ip :: string
  protocol :: string
  host :: "string option"

record process_env =
  BASE_URL :: "string option"
  RENDER_EXTERNAL_URL :: "string option"

record engine =
  now :: timestamp
  select_throws :: bool
  insert_throws :: bool

datatype db_error =
    Engine_fault | Constraint_primary_key | Constraint_foreign_key | Sql_syntax_error

text \<open>JavaScript's \<open>a || b\<close> on a string that may be absent: the empty string is falsy.\<close>

definition js_or :: "string option \<Rightarrow> string \<Rightarrow> string" where
  "js_or a b = (case a of None \<Rightarrow> b | Some s \<Rightarrow> if s = [] then b else s)"

text \<open>A template literal prints an absent value as the text \<open>undefined\<close>.\<close>

definition js_template :: "string option \<Rightarrow> string" where
  "js_template a = (case a of None \<Rightarrow> ''undefined'' | Some s \<Rightarrow> s)"

subsection \<open>The responses\<close>

text \<open>
  A response is the call the handler makes on \<open>res\<close>: \<open>res.set(h); res.send(buffer)\<close>,
  \<open>res.status(n).send(text)\<close>, \<open>res.redirect(n, url)\<close>, \<open>res.status(n).json({error})\<close>
  or \<open>res.json(payload)\<close>.
\<close>

datatype header_value = HStr string | HNum nat

record email_summary =
  s_id :: string
  s_subject :: "string option"
  s_recipient :: "string option"
  s_sent_at :: timestamp
  open_count :: nat
  last_opened :: "timestamp option"
  click_count :: nat

record open_view =
  ov_opened_at :: timestamp
  ov_ip_address :: string
  ov_user_agent :: string

record link_view =
  lv_id :: string
  lv_original_url :: "string option"
  lv_click_count :: nat

record click_view =
  cv_clicked_at :: timestamp
  cv_ip_address :: string
  cv_user_agent :: string
  cv_original_url :: "string option"

record stats_block =
  totalOpens :: nat
  uniqueOpens :: nat
  totalClicks :: nat
  uniqueClicks :: nat

record email_detail =
  d_email :: email_row
  d_opens :: "open_view list"
  d_links :: "link_view list"
  d_clicks :: "click_view list"
  d_stats :: stats_block

record aggregate_stats =
  total_emails :: nat
  total_opens :: nat
  total_clicks :: nat
  opensByDay :: "(nat \<times> nat) list"

datatype payload =
    Email_created string string
  | Link_created string string
  | Email_list "email_summary list"
  | Email_detail email_detail
  | Aggregate aggregate_stats

datatype response =
    Set_send "(string \<times> header_value) list" "byte list"
  | Status_send nat string
  | Redirect nat "string option"
  | Status_json_error nat string
  | Json payload

text \<open>The status line: \<open>res.send\<close> and \<open>res.json\<close> without \<open>res.status\<close> answer 200.\<close>

fun status_of :: "response \<Rightarrow> nat" where
  "status_of (Set_send h b) = 200"
| "status_of (Status_send n t) = n"
| "status_of (Redirect n u) = n"
| "status_of (Status_json_error n m) = n"
| "status_of (Json p) = 200"

subsection \<open>The tracking pixel\<close>

text \<open>
  \<open>Buffer.from(text, 'base64')\<close>: the characters up to the padding are read as 6-bit
  digits (\<open>-\<close> and \<open>_\<close> of the URL alphabet count as \<open>+\<close> and \<open>/\<close>),
  characters outside the alphabet are skipped, four digits give three bytes.
\<close>

definition b64_digit :: "char \<Rightarrow> nat option" where
  "b64_digit c =
     (let n = (of_char c :: nat) in
      if 65 \<le> n \<and> n \<le> 90 then Some (n - 65)
      else if 97 \<le> n \<and> n \<le> 122 then Some (n - 71)
      else if 48 \<le> n \<and> n \<le> 57 then Some (n + 4)
      else if n = 43 \<or> n = 45 then Some 62
      else if n = 47 \<or> n = 95 then Some 63
      else None)"

fun b64_bytes :: "nat list \<Rightarrow> byte list" where
  "b64_bytes (a # b # c # d # r) =
     (let n = ((a * 64 + b) * 64 + c) * 64 + d
      in word_of_nat (n div 65536) # word_of_nat (n div 256) # word_of_nat n # b64_bytes r)"
| "b64_bytes [a, b, c] =
     (let n = (a * 64 + b) * 64 + c in [word_of_nat (n div 1024), word_of_nat (n div 4)])"
| "b64_bytes [a, b] = [word_of_nat ((a * 64 + b) div 16)]"
| "b64_bytes r = []"

definition Buffer_from_base64 :: "string \<Rightarrow> byte list" where
  "Buffer_from_base64 s =
     b64_bytes (List.map_filter b64_digit (takeWhile (\<lambda>c. c \<noteq> CHR ''='') s))"

definition TRACKING_PIXEL :: "byte list" where
  "TRACKING_PIXEL = Buffer_from_base64
     ''iVBORw0KGgoAAAANSUhEUgAAAAEAAAABCAYAAAAfFcSJAAAADUlEQVR42mNk+M9QDwADhgGAWjR9awAAAABJRU5ErkJggg==''"

subsection \<open>Storage calls\<close>

text \<open>
  An AUTOINCREMENT key is one more than the largest key the table has held; no route
  deletes a row, so that is the largest key in the table.
\<close>

definition next_id :: "nat list \<Rightarrow> nat" where
  "next_id ids = Suc (foldr max ids 0)"

text \<open>
  The schema of \<^verbatim>\<open>index.js\<close> declares \<open>opens.email\_id\<close> and
  \<open>links.email\_id\<close> as foreign keys into \<open>emails(id)\<close> and \<open>clicks.link\_id\<close>
  as one into \<open>links(id)\<close>, and better-sqlite3 enforces them: an insert whose key is
  not NULL and names no row of the parent table is refused. The schema of the second
  variant declares none.
\<close>

definition insert_open :: "engine \<Rightarrow> store \<Rightarrow> string \<Rightarrow> string \<Rightarrow> string \<Rightarrow> db_error + store" where
  "insert_open g st emailId ipaddr agent =
     (if insert_throws g then Inl Engine_fault
      else if emailId \<notin> set (map e_id (emails st)) then Inl Constraint_foreign_key
      else Inr (st\<lparr>opens := opens st @
        [\<lparr>o_id = next_id (map o_id (opens st)), o_email_id = emailId, o_opened_at = now g,
          o_ip_address = ipaddr, o_user_agent = agent\<rparr>]\<rparr>))"

definition insert_open_sqljs ::
  "engine \<Rightarrow> store \<Rightarrow> string \<Rightarrow> string \<Rightarrow> string \<Rightarrow> db_error + store" where
  "insert_open_sqljs g st emailId ipaddr agent =
     (if insert_throws g then Inl Engine_fault
      else Inr (st\<lparr>opens := opens st @
        [\<lparr>o_id = next_id (map o_id (opens st)), o_email_id = emailId, o_opened_at = now g,
          o_ip_address = ipaddr, o_user_agent = agent\<rparr>]\<rparr>))"

definition insert_click :: "engine \<Rightarrow> store \<Rightarrow> string \<Rightarrow> string \<Rightarrow> string \<Rightarrow> db_error + store" where
  "insert_click g st linkId ipaddr agent =
     (if insert_throws g then Inl Engine_fault
      else if linkId \<notin> set (map l_id (links st)) then Inl Constraint_foreign_key
      else Inr (st\<lparr>clicks := clicks st @
        [\<lparr>c_id = next_id (map c_id (clicks st)), c_link_id = linkId, c_clicked_at = now g,
          c_ip_address = ipaddr, c_user_agent = agent\<rparr>]\<rparr>))"

definition insert_click_sqljs ::
  "engine \<Rightarrow> store \<Rightarrow> string \<Rightarrow> string \<Rightarrow> string \<Rightarrow> db_error + store" where
  "insert_click_sqljs g st linkId ipaddr agent =
     (if insert_throws g then Inl Engine_fault
      else Inr (st\<lparr>clicks := clicks st @
        [\<lparr>c_id = next_id (map c_id (clicks st)), c_link_id = linkId, c_clicked_at = now g,
          c_ip_address = ipaddr, c_user_agent = agent\<rparr>]\<rparr>))"

section \<open>Tracking endpoints\<close>

subsection \<open>GET /t/:emailId.png\<close>

text \<open>
  The insert stands in a \<open>try\<close> of its own; the \<open>catch\<close> logs and goes on. The
  headers and the body are sent after it, whatever happened.
\<close>

definition get_t_png :: "engine \<Rightarrow> request \<Rightarrow> store \<Rightarrow> string \<Rightarrow> store \<times> response" where
  "get_t_png g req st emailId =
     (let st' =
        (case insert_open g st emailId
                (js_or (hdr_x_forwarded_for req) (ip req))
                (js_or (hdr_user_agent req) ''Unknown'') of
           Inl err \<Rightarrow> st
         | Inr s \<Rightarrow> s)
      in (st',
          Set_send
            [(''Content-Type'', HStr ''image/png''),
             (''Content-Length'', HNum (length TRACKING_PIXEL)),
             (''Cache-Control'', HStr ''no-store, no-cache, must-revalidate, private''),
             (''Pragma'', HStr ''no-cache''),
             (''Expires'', HStr ''0'')]
            TRACKING_PIXEL))"

text \<open>
  The second variant makes the same calls through \<open>db.run(sql, [params])\<close>, on
  its schema without foreign keys.
\<close>

definition get_t_png_sqljs :: "engine \<Rightarrow> request \<Rightarrow> store \<Rightarrow> string \<Rightarrow> store \<times> response" where
  "get_t_png_sqljs g req st emailId =
     (let st' =
        (case insert_open_sqljs g st emailId
                (js_or (hdr_x_forwarded_for req) (ip req))
                (js_or (hdr_user_agent req) ''Unknown'') of
           Inl err \<Rightarrow> st
         | Inr s \<Rightarrow> s)
      in (st',
          Set_send
            [(''Content-Type'', HStr ''image/png''),
             (''Content-Length'', HNum (length TRACKING_PIXEL)),
             (''Cache-Control'', HStr ''no-store, no-cache, must-revalidate, private''),
             (''Pragma'', HStr ''no-cache''),
             (''Expires'', HStr ''0'')]
            TRACKING_PIXEL))"

text \<open>The headers and the buffer of a \<open>res.set(h); res.send(buffer)\<close>.\<close>

fun sent_headers :: "response \<Rightarrow> (string \<times> header_value) list" where
  "sent_headers (Set_send h b) = h"
| "sent_headers r = []"

fun sent_buffer :: "response \<Rightarrow> byte list option" where
  "sent_buffer (Set_send h b) = Some b"
| "sent_buffer r = None"

text \<open>The one response the pixel route gives.\<close>

definition pixel_response :: response where
  "pixel_response =
     Set_send
       [(''Content-Type'', HStr ''image/png''),
        (''Content-Length'', HNum (length TRACKING_PIXEL)),
        (''Cache-Control'', HStr ''no-store, no-cache, must-revalidate, private''),
        (''Pragma'', HStr ''no-cache''),
        (''Expires'', HStr ''0'')]
       TRACKING_PIXEL"

text \<open>
  Fetching the pixel once per element of a list of requests, each with what the engine
  does during it; \<open>h\<close> is the handler of either variant.
\<close>

fun fetches ::
  "(engine \<Rightarrow> request \<Rightarrow> store \<Rightarrow> string \<Rightarrow> store \<times> response) \<Rightarrow>
   (engine \<times> request) list \<Rightarrow> string \<Rightarrow> store \<Rightarrow> store \<times> response list" where
  "fetches h [] emailId st = (st, [])"
| "fetches h (r # rs) emailId st =
     (let (st1, out) = h (fst r) (snd r) st emailId;
          (st2, outs) = fetches h rs emailId st1
      in (st2, out # outs))"

subsection \<open>GET /c/:linkId\<close>

text \<open>
  \<open>db.prepare('SELECT original_url FROM links WHERE id = ?').get(linkId)\<close>: the first
  row with that id, or nothing.
\<close>

definition select_link :: "engine \<Rightarrow> store \<Rightarrow> string \<Rightarrow> db_error + link_row option" where
  "select_link g st linkId =
     (if select_throws g then Inl Engine_fault
      else Inr (find (\<lambda>l. l_id l = linkId) (links st)))"

text \<open>
  The lookup, the insert and the redirect stand in one \<open>try\<close>: whichever storage call
  raises, the \<open>catch\<close> answers 500. An unknown id returns 404 before the insert.
\<close>

definition get_c :: "engine \<Rightarrow> request \<Rightarrow> store \<Rightarrow> string \<Rightarrow> store \<times> response" where
  "get_c g req st linkId =
     (case select_link g st linkId of
        Inl err \<Rightarrow> (st, Status_send 500 ''Error processing request'')
      | Inr None \<Rightarrow> (st, Status_send 404 ''Link not found'')
      | Inr (Some link) \<Rightarrow>
          (case insert_click g st linkId
                  (js_or (hdr_x_forwarded_for req) (ip req))
                  (js_or (hdr_user_agent req) ''Unknown'') of
             Inl err \<Rightarrow> (st, Status_send 500 ''Error processing request'')
           | Inr st' \<Rightarrow> (st', Redirect 302 (l_original_url link))))"

subsection \<open>Request text pasted into SQL (second variant)\<close>

text \<open>
  The second variant builds its lookups as \<open>... WHERE col = '${x}' ...\<close>. The engine
  reads the text after the opening quote as a string literal: two quotes in a row are one
  quote of the value, a single quote closes the literal, and a text that ends inside the
  literal is refused (unrecognized token).
\<close>

datatype quoted = Closed string string | Unterminated

fun scan_literal :: "string \<Rightarrow> string \<Rightarrow> quoted" where
  "scan_literal acc [] = Unterminated"
| "scan_literal acc [c] = (if c = CHR 0x27 then Closed acc [] else Unterminated)"
| "scan_literal acc (c # d # r) =
     (if c = CHR 0x27
      then (if d = CHR 0x27 then scan_literal (acc @ [CHR 0x27]) r else Closed acc (d # r))
      else scan_literal (acc @ [c]) (d # r))"

text \<open>
  \<open>db.exec\<close> of such a query, for the pasted text \<open>x\<close> and the rest \<open>tail\<close> of the
  query after the closing quote the author wrote. sql.js hands the query to the engine as
  a C string, so the engine reads it up to the first NUL character only. When the literal
  closes and exactly \<open>tail\<close> follows it,
  the query is the intended one, on the value the literal denotes (\<open>rows_for\<close>). When
  something else follows it, that is SQL of the requester's choosing, which \<open>db.exec\<close>
  runs (several statements if there are); what the engine makes of it is the parameter
  \<open>inj_sql\<close>, given the literal and the text after it.
\<close>

type_synonym 'r injected = "string \<Rightarrow> string \<Rightarrow> store \<Rightarrow> db_error + ('r list \<times> store)"

definition exec_interpolated ::
  "'r injected \<Rightarrow> engine \<Rightarrow> store \<Rightarrow> string \<Rightarrow> string \<Rightarrow> (string \<Rightarrow> 'r list) \<Rightarrow>
   db_error + ('r list \<times> store)" where
  "exec_interpolated inj_sql g st x tail rows_for =
     (if select_throws g then Inl Engine_fault
      else case scan_literal [] (takeWhile (\<lambda>c. c \<noteq> CHR 0x00) (x @ CHR 0x27 # tail)) of
             Unterminated \<Rightarrow> Inl Sql_syntax_error
           | Closed lit rest \<Rightarrow>
               if rest = tail then Inr (rows_for lit, st) else inj_sql lit rest st)"

text \<open>
  \<open>db.exec(`SELECT original_url FROM links WHERE id = '${linkId}'`)\<close>, then the
  insert through \<open>db.run\<close> with bound parameters.
\<close>

definition select_link_sqljs ::
  "(string option) injected \<Rightarrow> engine \<Rightarrow> store \<Rightarrow> string \<Rightarrow>
   db_error + ((string option) list \<times> store)" where
  "select_link_sqljs inj_sql g st linkId =
     exec_interpolated inj_sql g st linkId []
       (\<lambda>lit. map l_original_url (filter (\<lambda>l. l_id l = lit) (links st)))"

definition get_c_sqljs ::
  "(string option) injected \<Rightarrow> engine \<Rightarrow> request \<Rightarrow> store \<Rightarrow> string \<Rightarrow> store \<times> response" where
  "get_c_sqljs inj_sql g req st linkId =
     (case select_link_sqljs inj_sql g st linkId of
        Inl err \<Rightarrow> (st, Status_send 500 ''Error processing request'')
      | Inr (rows, st1) \<Rightarrow>
          (case rows of
             [] \<Rightarrow> (st1, Status_send 404 ''Link not found'')
           | originalUrl # others \<Rightarrow>
               (case insert_click_sqljs g st1 linkId
                       (js_or (hdr_x_forwarded_for req) (ip req))
                       (js_or (hdr_user_agent req) ''Unknown'') of
                  Inl err \<Rightarrow> (st1, Status_send 500 ''Error processing request'')
                | Inr st2 \<Rightarrow> (st2, Redirect 302 originalUrl))))"

section \<open>API endpoints\<close>

subsection \<open>Registration: POST /api/emails and POST /api/links\<close>

text \<open>
  \<open>crypto.randomBytes(n)\<close> reads \<open>n\<close> bytes of the system's randomness, here a
  sequence \<open>rnd\<close>; \<open>toString('hex')\<close> prints each byte as two lower-case digits.
\<close>

definition randomBytes :: "nat \<Rightarrow> (nat \<Rightarrow> byte) \<Rightarrow> byte list" where
  "randomBytes n rnd = map rnd [0..<n]"

definition hex_digit :: "nat \<Rightarrow> char" where
  "hex_digit n = ''0123456789abcdef'' ! (n mod 16)"

definition toString_hex :: "byte list \<Rightarrow> string" where
  "toString_hex bs = concat (map (\<lambda>b. [hex_digit (unat b div 16), hex_digit (unat b mod 16)]) bs)"

text \<open>
  \<open>process.env.BASE\_URL || `${req.protocol}://${req.get('host')}`\<close>.
\<close>

definition getBaseUrl :: "process_env \<Rightarrow> request \<Rightarrow> string" where
  "getBaseUrl env req = js_or (BASE_URL env) (protocol req @ ''://'' @ js_template (host req))"

text \<open>
  The second variant asks \<open>process.env.RENDER\_EXTERNAL\_URL\<close> first.
\<close>

definition getBaseUrl_sqljs :: "process_env \<Rightarrow> request \<Rightarrow> string" where
  "getBaseUrl_sqljs env req =
     js_or (RENDER_EXTERNAL_URL env)
       (js_or (BASE_URL env) (protocol req @ ''://'' @ js_template (host req)))"

record email_body =
  body_subject :: "string option"
  body_recipient :: "string option"
  body_userEmail :: "string option"

record link_body =
  body_emailId :: "string option"
  body_originalUrl :: "string option"

text \<open>
  Both tables declare \<open>id TEXT PRIMARY KEY\<close>: an insert with an id the table already
  has is refused, and the handler's \<open>catch\<close> answers 500; so is, in \<^verbatim>\<open>index.js\<close>,
  a link whose \<open>email\_id\<close> is not NULL and names no email.
\<close>

definition insert_email ::
  "engine \<Rightarrow> store \<Rightarrow> string \<Rightarrow> string option \<Rightarrow> string option \<Rightarrow> string option \<Rightarrow> db_error + store" where
  "insert_email g st emailId subject recipient userEmail =
     (if insert_throws g then Inl Engine_fault
      else if emailId \<in> set (map e_id (emails st)) then Inl Constraint_primary_key
      else Inr (st\<lparr>emails := emails st @
        [\<lparr>e_id = emailId, e_subject = subject, e_recipient = recipient, e_sent_at = now g,
          e_user_email = userEmail\<rparr>]\<rparr>))"

definition insert_link ::
  "engine \<Rightarrow> store \<Rightarrow> string \<Rightarrow> string option \<Rightarrow> string option \<Rightarrow> db_error + store" where
  "insert_link g st linkId emailId originalUrl =
     (if insert_throws g then Inl Engine_fault
      else if linkId \<in> set (map l_id (links st)) then Inl Constraint_primary_key
      else if (case emailId of None \<Rightarrow> False | Some e \<Rightarrow> e \<notin> set (map e_id (emails st)))
        then Inl Constraint_foreign_key
      else Inr (st\<lparr>links := links st @
        [\<lparr>l_id = linkId, l_email_id = emailId, l_original_url = originalUrl,
          l_created_at = now g\<rparr>]\<rparr>))"

definition post_api_emails ::
  "process_env \<Rightarrow> engine \<Rightarrow> (nat \<Rightarrow> byte) \<Rightarrow> request \<Rightarrow> store \<Rightarrow> email_body \<Rightarrow> store \<times> response" where
  "post_api_emails env g rnd req st b =
     (let emailId = toString_hex (randomBytes 8 rnd)
      in case insert_email g st emailId (body_subject b) (body_recipient b) (body_userEmail b) of
           Inl err \<Rightarrow> (st, Status_json_error 500 ''Failed to create email'')
         | Inr st' \<Rightarrow>
             (st', Json (Email_created emailId (getBaseUrl env req @ ''/t/'' @ emailId @ ''.png''))))"

definition post_api_links ::
  "process_env \<Rightarrow> engine \<Rightarrow> (nat \<Rightarrow> byte) \<Rightarrow> request \<Rightarrow> store \<Rightarrow> link_body \<Rightarrow> store \<times> response" where
  "post_api_links env g rnd req st b =
     (let linkId = toString_hex (randomBytes 6 rnd)
      in case insert_link g st linkId (body_emailId b) (body_originalUrl b) of
           Inl err \<Rightarrow> (st, Status_json_error 500 ''Failed to create link'')
         | Inr st' \<Rightarrow>
             (st', Json (Link_created linkId (getBaseUrl env req @ ''/c/'' @ linkId))))"

subsection \<open>Listing: GET /api/emails\<close>

text \<open>
  \<open>ORDER BY k DESC\<close>: the keys descend, and rows with equal keys stay in the order
  of the table (SQL leaves that order open; the engine keeps it). \<open>MAX\<close> of no rows
  is NULL.
\<close>

definition order_by_desc :: "('a \<Rightarrow> nat) \<Rightarrow> 'a list \<Rightarrow> 'a list" where
  "order_by_desc k xs = rev (sort_key k (rev xs))"

definition sql_max :: "nat list \<Rightarrow> nat option" where
  "sql_max xs = (if xs = [] then None else Some (foldr max xs 0))"

text \<open>The rows of \<open>opens\<close> for an email, and of \<open>clicks c JOIN links l ON c.link\_id = l.id\<close>.\<close>

definition opens_of :: "store \<Rightarrow> string \<Rightarrow> open_row list" where
  "opens_of st emailId = filter (\<lambda>ev. o_email_id ev = emailId) (opens st)"

definition clicks_join_links :: "store \<Rightarrow> (click_row \<times> link_row) list" where
  "clicks_join_links st =
     filter (\<lambda>(c, l). c_link_id c = l_id l) (List.product (clicks st) (links st))"

definition clicks_of :: "store \<Rightarrow> string \<Rightarrow> (click_row \<times> link_row) list" where
  "clicks_of st emailId = filter (\<lambda>(c, l). l_email_id l = Some emailId) (clicks_join_links st)"

definition summary :: "store \<Rightarrow> email_row \<Rightarrow> email_summary" where
  "summary st e =
     \<lparr>s_id = e_id e, s_subject = e_subject e, s_recipient = e_recipient e, s_sent_at = e_sent_at e,
      open_count = length (opens_of st (e_id e)),
      last_opened = sql_max (map o_opened_at (opens_of st (e_id e))),
      click_count = length (clicks_of st (e_id e))\<rparr>"

definition emails_query :: "store \<Rightarrow> string \<Rightarrow> email_summary list" where
  "emails_query st userEmail =
     map (summary st)
       (take 100 (order_by_desc e_sent_at
          (filter (\<lambda>e. e_user_email e = Some userEmail) (emails st))))"

definition get_api_emails :: "engine \<Rightarrow> store \<Rightarrow> string \<Rightarrow> response" where
  "get_api_emails g st userEmail =
     (if select_throws g then Status_json_error 500 ''Failed to fetch emails''
      else Json (Email_list (emails_query st userEmail)))"

text \<open>
  The second variant pastes \<open>userEmail\<close> into the same query; the text after the
  closing quote is the ORDER BY and LIMIT clause (its line breaks written as spaces). An
  empty result and a result with rows are both sent as the list of rows.
\<close>

definition emails_query_tail :: string where
  "emails_query_tail = '' ORDER BY e.sent_at DESC LIMIT 100 ''"

definition get_api_emails_sqljs ::
  "email_summary injected \<Rightarrow> engine \<Rightarrow> store \<Rightarrow> string \<Rightarrow> store \<times> response" where
  "get_api_emails_sqljs inj_sql g st userEmail =
     (case exec_interpolated inj_sql g st userEmail emails_query_tail (emails_query st) of
        Inl err \<Rightarrow> (st, Status_json_error 500 ''Failed to fetch emails'')
      | Inr (rows, st1) \<Rightarrow> (st1, Json (Email_list rows)))"

subsection \<open>Detail: GET /api/emails/:emailId\<close>

text \<open>
  The stats block: the sizes of the two lists and of the sets of their IP addresses
  (\<open>new Set(...).size\<close>). The second variant names the two sets first.
\<close>

definition stats_of :: "open_view list \<Rightarrow> click_view list \<Rightarrow> stats_block" where
  "stats_of os cs =
     \<lparr>totalOpens = length os,
      uniqueOpens = length (remdups (map ov_ip_address os)),
      totalClicks = length cs,
      uniqueClicks = length (remdups (map cv_ip_address cs))\<rparr>"

definition stats_of_sqljs :: "open_view list \<Rightarrow> click_view list \<Rightarrow> stats_block" where
  "stats_of_sqljs os cs =
     (let uniqueOpenIps = remdups (map ov_ip_address os);
          uniqueClickIps = remdups (map cv_ip_address cs)
      in \<lparr>totalOpens = length os, uniqueOpens = length uniqueOpenIps,
          totalClicks = length cs, uniqueClicks = length uniqueClickIps\<rparr>)"

definition open_view_of :: "open_row \<Rightarrow> open_view" where
  "open_view_of ev =
     \<lparr>ov_opened_at = o_opened_at ev, ov_ip_address = o_ip_address ev, ov_user_agent = o_user_agent ev\<rparr>"

definition click_view_of :: "click_row \<times> link_row \<Rightarrow> click_view" where
  "click_view_of p =
     \<lparr>cv_clicked_at = c_clicked_at (fst p), cv_ip_address = c_ip_address (fst p),
      cv_user_agent = c_user_agent (fst p), cv_original_url = l_original_url (snd p)\<rparr>"

definition link_view_of :: "store \<Rightarrow> link_row \<Rightarrow> link_view" where
  "link_view_of st l =
     \<lparr>lv_id = l_id l, lv_original_url = l_original_url l,
      lv_click_count = length (filter (\<lambda>c. c_link_id c = l_id l) (clicks st))\<rparr>"

definition get_api_email :: "engine \<Rightarrow> store \<Rightarrow> string \<Rightarrow> response" where
  "get_api_email g st emailId =
     (if select_throws g then Status_json_error 500 ''Failed to fetch email details''
      else case find (\<lambda>e. e_id e = emailId) (emails st) of
             None \<Rightarrow> Status_json_error 404 ''Email not found''
           | Some email \<Rightarrow>
               (let os = map open_view_of (order_by_desc o_opened_at (opens_of st emailId));
                    ls = map (link_view_of st)
                           (filter (\<lambda>l. l_email_id l = Some emailId) (links st));
                    cs = map click_view_of
                           (order_by_desc (\<lambda>p. c_clicked_at (fst p)) (clicks_of st emailId))
                in Json (Email_detail
                     \<lparr>d_email = email, d_opens = os, d_links = ls, d_clicks = cs,
                      d_stats = stats_of os cs\<rparr>)))"

subsection \<open>Aggregate: GET /api/stats\<close>

text \<open>
  \<open>DATE(t)\<close> is the calendar day of a timestamp, here its number; the text
  \<open>YYYY-MM-DD\<close> orders as the number does. \<open>o.opened\_at >= DATE('now', '-7 days')\<close>
  compares the stored text \<open>YYYY-MM-DD HH:MM:SS\<close> with a bare date, so it holds
  exactly when the day of the open is the day seven days before today, or a later one.
\<close>

definition DATE :: "timestamp \<Rightarrow> nat" where
  "DATE t = t div 86400"

definition opens_join_emails :: "store \<Rightarrow> string \<Rightarrow> (open_row \<times> email_row) list" where
  "opens_join_emails st userEmail =
     filter (\<lambda>(ev, e). o_email_id ev = e_id e \<and> e_user_email e = Some userEmail)
       (List.product (opens st) (emails st))"

definition clicks_join_emails :: "store \<Rightarrow> string \<Rightarrow> (click_row \<times> link_row \<times> email_row) list" where
  "clicks_join_emails st userEmail =
     filter (\<lambda>(c, l, e). c_link_id c = l_id l \<and> l_email_id l = Some (e_id e) \<and>
                         e_user_email e = Some userEmail)
       (List.product (clicks st) (List.product (links st) (emails st)))"

definition opens_by_day :: "engine \<Rightarrow> store \<Rightarrow> string \<Rightarrow> (nat \<times> nat) list" where
  "opens_by_day g st userEmail =
     (let days = map (\<lambda>p. DATE (o_opened_at (fst p)))
                   (filter (\<lambda>p. DATE (now g) \<le> DATE (o_opened_at (fst p)) + 7)
                      (opens_join_emails st userEmail))
      in map (\<lambda>d. (d, count_list days d)) (sort (remdups days)))"

definition get_api_stats :: "engine \<Rightarrow> store \<Rightarrow> string \<Rightarrow> response" where
  "get_api_stats g st userEmail =
     (if select_throws g then Status_json_error 500 ''Failed to fetch stats''
      else Json (Aggregate
        \<lparr>total_emails =
           length (remdups (map e_id (filter (\<lambda>e. e_user_email e = Some userEmail) (emails st)))),
         total_opens = length (opens_join_emails st userEmail),
         total_clicks = length (clicks_join_emails st userEmail),
         opensByDay = opens_by_day g st userEmail\<rparr>))"

section \<open>Sample data\<close>

text \<open>
  A store with no rows, a request, and an engine at a given time that raises nowhere,
  for the closed instances below.
\<close>

definition empty_store :: store where
  "empty_store = \<lparr>emails = [], opens = [], links = [], clicks = []\<rparr>"

definition sample_request :: request where
  "sample_request =
     \<lparr>hdr_x_forwarded_for = None, hdr_user_agent = Some ''Mozilla/5.0'', ip = ''203.0.113.7'',
      protocol = ''https'', host = Some ''tracker.example''\<rparr>"

definition engine_at :: "timestamp \<Rightarrow> engine" where
  "engine_at t = \<lparr>now = t, select_throws = False, insert_throws = False\<rparr>"

definition sample_link :: link_row where
  "sample_link =
     \<lparr>l_id = ''0a1b2c3d4e5f'', l_email_id = Some ''00112233445566ff'',
      l_original_url = Some ''https://example.com'', l_created_at = 1000\<rparr>"

definition sample_email :: email_row where
  "sample_email =
     \<lparr>e_id = ''00112233445566ff'', e_subject = Some ''Hello'', e_recipient = Some ''bob@example.com'',
      e_sent_at = 900, e_user_email = Some ''alice@example.com''\<rparr>"

text \<open>An engine that refuses whatever follows a literal closed early.\<close>

definition refuse_rest :: "'r injected" where
  "refuse_rest lit rest st = Inl Sql_syntax_error"

definition store_with_link :: store where
  "store_with_link = empty_store\<lparr>emails := [sample_email], links := [sample_link]\<rparr>"

definition failing_insert :: engine where
  "failing_insert = \<lparr>now = 2000, select_throws = False, insert_throws = True\<rparr>"

definition sample_env :: process_env where
  "sample_env = \<lparr>BASE_URL = None, RENDER_EXTERNAL_URL = None\<rparr>"

text \<open>
  The scenario of the specification: an email is registered, a link of it is registered,
  the pixel is fetched once and the link is clicked twice, from two addresses.
\<close>

definition scenario_store :: store where
  "scenario_store =
     (let body = \<lparr>body_subject = Some ''Hello'', body_recipient = Some ''bob@example.com'',
                  body_userEmail = Some ''alice@example.com''\<rparr>;
          st1 = fst (post_api_emails sample_env (engine_at 900) (\<lambda>i. 0xAB) sample_request
                  empty_store body);
          st2 = fst (post_api_links sample_env (engine_at 1000) (\<lambda>i. 0x3C) sample_request st1
                  \<lparr>body_emailId = Some ''abababababababab'',
                   body_originalUrl = Some ''https://example.com''\<rparr>);
          st3 = fst (get_t_png (engine_at 1100) sample_request st2 ''abababababababab'');
          st4 = fst (get_c (engine_at 1200)
                  (sample_request\<lparr>hdr_x_forwarded_for := Some ''198.51.100.1''\<rparr>) st3 ''3c3c3c3c3c3c'')
      in fst (get_c (engine_at 1300)
                  (sample_request\<lparr>hdr_x_forwarded_for := Some ''198.51.100.2''\<rparr>) st4 ''3c3c3c3c3c3c''))"

text \<open>
  A user with 101 emails, registered one second apart, and one open of the oldest.
\<close>

definition crowd_email :: "nat \<Rightarrow> email_row" where
  "crowd_email i =
     \<lparr>e_id = ''00000000000000'' @ [hex_digit (i div 16), hex_digit (i mod 16)],
      e_subject = Some ''Hello'', e_recipient = Some ''bob@example.com'',
      e_sent_at = 1000 + i, e_user_email = Some ''alice@example.com''\<rparr>"

definition crowded_store :: store where
  "crowded_store =
     \<lparr>emails = map crowd_email [0..<101],
      opens = [\<lparr>o_id = 1, o_email_id = ''0000000000000000'', o_opened_at = 5000,
                 o_ip_address = ''203.0.113.7'', o_user_agent = ''Mozilla/5.0''\<rparr>],
      links = [], clicks = []\<rparr>"

text \<open>What a response of the aggregate route and of the listing route report.\<close>

fun total_opens_of :: "response \<Rightarrow> nat option" where
  "total_opens_of (Json (Aggregate a)) = Some (total_opens a)"
| "total_opens_of r = None"

fun listed_opens_of :: "response \<Rightarrow> nat option" where
  "listed_opens_of (Json (Email_list rows)) = Some (sum_list (map open_count rows))"
| "listed_opens_of r = None"

text \<open>
  Opens of one email on day 9, day 3 (twice) and the last second of day 2.
\<close>

definition week_store :: store where
  "week_store =
     \<lparr>emails = [sample_email],
      opens =
        [\<lparr>o_id = 1, o_email_id = ''00112233445566ff'', o_opened_at = 9 * 86400 + 30,
          o_ip_address = ''203.0.113.7'', o_user_agent = ''Mozilla/5.0''\<rparr>,
         \<lparr>o_id = 2, o_email_id = ''00112233445566ff'', o_opened_at = 3 * 86400,
          o_ip_address = ''203.0.113.7'', o_user_agent = ''Mozilla/5.0''\<rparr>,
         \<lparr>o_id = 3, o_email_id = ''00112233445566ff'', o_opened_at = 2 * 86400 + 86399,
          o_ip_address = ''203.0.113.8'', o_user_agent = ''Mozilla/5.0''\<rparr>,
         \<lparr>o_id = 4, o_email_id = ''00112233445566ff'', o_opened_at = 3 * 86400 + 7200,
          o_ip_address = ''203.0.113.9'', o_user_agent = ''Mozilla/5.0''\<rparr>],
      links = [], clicks = []\<rparr>"

section \<open>The pixel route\<close>

lemma get_t_png_response: "snd (get_t_png g req st emailId) = pixel_response"
  by (simp add: get_t_png_def pixel_response_def Let_def)

lemma get_t_png_sqljs_response: "snd (get_t_png_sqljs g req st emailId) = pixel_response"
  by (simp add: get_t_png_sqljs_def pixel_response_def Let_def)

lemma get_t_png_store:
  "fst (get_t_png g req st emailId) =
     (if \<not> insert_throws g \<and> emailId \<in> set (map e_id (emails st))
      then st\<lparr>opens := opens st @
        [\<lparr>o_id = next_id (map o_id (opens st)), o_email_id = emailId, o_opened_at = now g,
          o_ip_address = js_or (hdr_x_forwarded_for req) (ip req),
          o_user_agent = js_or (hdr_user_agent req) ''Unknown''\<rparr>]\<rparr>
      else st)"
  by (simp add: get_t_png_def insert_open_def Let_def)

lemma get_t_png_sqljs_store:
  "fst (get_t_png_sqljs g req st emailId) =
     (if \<not> insert_throws g
      then st\<lparr>opens := opens st @
        [\<lparr>o_id = next_id (map o_id (opens st)), o_email_id = emailId, o_opened_at = now g,
          o_ip_address = js_or (hdr_x_forwarded_for req) (ip req),
          o_user_agent = js_or (hdr_user_agent req) ''Unknown''\<rparr>]\<rparr>
      else st)"
  by (simp add: get_t_png_sqljs_def insert_open_sqljs_def Let_def)

text \<open>
  On a registered email id the two variants do the same; on any other id
  \<^verbatim>\<open>index.js\<close> writes nothing.
\<close>

lemma get_t_png_by_sqljs:
  "get_t_png g req st emailId =
     (if emailId \<in> set (map e_id (emails st)) then get_t_png_sqljs g req st emailId
      else (st, pixel_response))"
  by (rule prod_eqI)
     (simp_all add: get_t_png_store get_t_png_sqljs_store get_t_png_response
       get_t_png_sqljs_response)

text \<open>
  The buffer is a PNG file of 70 bytes: the signature, then an IHDR chunk of width 1 and
  height 1, eight bits per channel, colour type 6 (with an alpha channel).
\<close>

lemma TRACKING_PIXEL_length: "length TRACKING_PIXEL = 70"
  by (simp add: TRACKING_PIXEL_def Buffer_from_base64_def b64_digit_def)

lemma TRACKING_PIXEL_header:
  "take 26 TRACKING_PIXEL =
     [0x89, 0x50, 0x4E, 0x47, 0x0D, 0x0A, 0x1A, 0x0A, 0, 0, 0, 13, 0x49, 0x48, 0x44, 0x52,
      0, 0, 0, 1, 0, 0, 0, 1, 8, 6]"
  by (simp add: TRACKING_PIXEL_def Buffer_from_base64_def b64_digit_def)

text \<open>
  C4. The pixel route answers with the fixed image and the no-cache headers whether the
  insert of the Open row succeeded or raised: in both variants the response is the one
  value \<open>pixel_response\<close> for every behaviour of the engine, so the status (200), the
  five headers and the buffer are the same with a failing insert as with a successful one.
\<close>

theorem pixel_response_whatever_the_insert_does:
  "snd (get_t_png g req st emailId) = pixel_response \<and>
   snd (get_t_png_sqljs g req st emailId) = pixel_response \<and>
   snd (get_t_png (g\<lparr>insert_throws := True\<rparr>) req st emailId) =
     snd (get_t_png (g\<lparr>insert_throws := False\<rparr>) req st emailId) \<and>
   status_of pixel_response = 200 \<and>
   sent_buffer pixel_response = Some TRACKING_PIXEL \<and>
   sent_headers pixel_response =
     [(''Content-Type'', HStr ''image/png''),
      (''Content-Length'', HNum (length TRACKING_PIXEL)),
      (''Cache-Control'', HStr ''no-store, no-cache, must-revalidate, private''),
      (''Pragma'', HStr ''no-cache''),
      (''Expires'', HStr ''0'')]"
  by (simp add: get_t_png_def get_t_png_sqljs_def pixel_response_def Let_def)

text \<open>
  C10. The response of the pixel route does not depend on the email id, on the request
  headers or on the store: any two runs, of either variant, on any inputs and states,
  give the same response. What a run changes is the table of opens alone, by the one row
  it appends; it appends none when the insert raises, and in \<^verbatim>\<open>index.js\<close> none
  when the id is not that of a registered email.
\<close>

theorem pixel_runs_differ_only_in_the_open_row:
  "snd (get_t_png g1 req1 st1 id1) = snd (get_t_png g2 req2 st2 id2) \<and>
   snd (get_t_png_sqljs g1 req1 st1 id1) = snd (get_t_png_sqljs g2 req2 st2 id2) \<and>
   snd (get_t_png g1 req1 st1 id1) = snd (get_t_png_sqljs g2 req2 st2 id2) \<and>
   emails (fst (get_t_png g1 req1 st1 id1)) = emails st1 \<and>
   links (fst (get_t_png g1 req1 st1 id1)) = links st1 \<and>
   clicks (fst (get_t_png g1 req1 st1 id1)) = clicks st1 \<and>
   opens (fst (get_t_png g1 req1 st1 id1)) =
     opens st1 @
       (if \<not> insert_throws g1 \<and> id1 \<in> set (map e_id (emails st1))
        then [\<lparr>o_id = next_id (map o_id (opens st1)), o_email_id = id1, o_opened_at = now g1,
               o_ip_address = js_or (hdr_x_forwarded_for req1) (ip req1),
               o_user_agent = js_or (hdr_user_agent req1) ''Unknown''\<rparr>]
        else []) \<and>
   emails (fst (get_t_png_sqljs g1 req1 st1 id1)) = emails st1 \<and>
   links (fst (get_t_png_sqljs g1 req1 st1 id1)) = links st1 \<and>
   clicks (fst (get_t_png_sqljs g1 req1 st1 id1)) = clicks st1 \<and>
   opens (fst (get_t_png_sqljs g1 req1 st1 id1)) =
     opens st1 @
       (if \<not> insert_throws g1
        then [\<lparr>o_id = next_id (map o_id (opens st1)), o_email_id = id1, o_opened_at = now g1,
               o_ip_address = js_or (hdr_x_forwarded_for req1) (ip req1),
               o_user_agent = js_or (hdr_user_agent req1) ''Unknown''\<rparr>]
        else [])"
  by (simp add: get_t_png_response get_t_png_sqljs_response get_t_png_store
      get_t_png_sqljs_store)

section \<open>The click route\<close>

lemma scan_literal_plain:
  "CHR 0x27 \<notin> set x \<Longrightarrow> tail = [] \<or> hd tail \<noteq> CHR 0x27 \<Longrightarrow>
   scan_literal acc (x @ CHR 0x27 # tail) = Closed (acc @ x) tail"
proof (induction x arbitrary: acc)
  case Nil
  then show ?case by (cases tail) auto
next
  case (Cons c x)
  obtain d r where dr: "x @ CHR 0x27 # tail = d # r"
    by (cases "x @ CHR 0x27 # tail") auto
  have c: "c \<noteq> CHR 0x27"
    using Cons.prems(1) by auto
  have "scan_literal acc ((c # x) @ CHR 0x27 # tail) = scan_literal (acc @ [c]) (x @ CHR 0x27 # tail)"
    using c by (simp add: dr)
  also have "\<dots> = Closed ((acc @ [c]) @ x) tail"
    using Cons.prems by (intro Cons.IH) auto
  finally show ?case by simp
qed

lemma find_as_filter:
  "find P xs = (case filter P xs of [] \<Rightarrow> None | x # r \<Rightarrow> Some x)"
  by (induction xs) auto

lemma takeWhile_no_nul:
  "CHR 0x00 \<notin> set x \<Longrightarrow> CHR 0x00 \<notin> set tail \<Longrightarrow>
   takeWhile (\<lambda>c. c \<noteq> CHR 0x00) (x @ CHR 0x27 # tail) = x @ CHR 0x27 # tail"
  by (auto simp: takeWhile_eq_all_conv)

lemma find_Some_member: "find P xs = Some x \<Longrightarrow> x \<in> set xs \<and> P x"
  by (induction xs) (auto split: if_splits)

lemma insert_click_present:
  "linkId \<in> set (map l_id (links st)) \<Longrightarrow>
   insert_click g st linkId a b = insert_click_sqljs g st linkId a b"
  by (simp add: insert_click_def insert_click_sqljs_def)

lemma select_link_sqljs_plain:
  "CHR 0x27 \<notin> set linkId \<Longrightarrow> CHR 0x00 \<notin> set linkId \<Longrightarrow>
   select_link_sqljs inj_sql g st linkId =
     (if select_throws g then Inl Engine_fault
      else Inr (map l_original_url (filter (\<lambda>l. l_id l = linkId) (links st)), st))"
  by (simp add: select_link_sqljs_def exec_interpolated_def takeWhile_no_nul scan_literal_plain)

text \<open>
  On a text with neither a quote nor a NUL the second variant does what
  \<^verbatim>\<open>index.js\<close> does.
\<close>

lemma get_c_sqljs_plain:
  assumes "CHR 0x27 \<notin> set linkId" and "CHR 0x00 \<notin> set linkId"
  shows "get_c_sqljs inj_sql g req st linkId = get_c g req st linkId"
proof (cases "filter (\<lambda>l. l_id l = linkId) (links st)")
  case Nil
  then show ?thesis
    using assms
    by (simp add: get_c_sqljs_def get_c_def select_link_sqljs_plain select_link_def find_as_filter)
next
  case (Cons link r)
  then have "link \<in> set (filter (\<lambda>l. l_id l = linkId) (links st))"
    by simp
  then have "linkId \<in> set (map l_id (links st))"
    by auto
  then show ?thesis
    using assms Cons
    by (simp add: get_c_sqljs_def get_c_def select_link_sqljs_plain select_link_def find_as_filter
        insert_click_present)
qed

lemma get_api_emails_sqljs_plain:
  "CHR 0x27 \<notin> set userEmail \<Longrightarrow> CHR 0x00 \<notin> set userEmail \<Longrightarrow>
   get_api_emails_sqljs inj_sql g st userEmail = (st, get_api_emails g st userEmail)"
  by (simp add: get_api_emails_sqljs_def get_api_emails_def exec_interpolated_def
      takeWhile_no_nul scan_literal_plain emails_query_tail_def)

lemma get_c_found:
  assumes "select_link g st linkId = Inr (Some link)"
  shows "get_c g req st linkId =
     (if insert_throws g then (st, Status_send 500 ''Error processing request'')
      else (st\<lparr>clicks := clicks st @
              [\<lparr>c_id = next_id (map c_id (clicks st)), c_link_id = linkId, c_clicked_at = now g,
                c_ip_address = js_or (hdr_x_forwarded_for req) (ip req),
                c_user_agent = js_or (hdr_user_agent req) ''Unknown''\<rparr>]\<rparr>,
            Redirect 302 (l_original_url link)))"
proof -
  from assms have "find (\<lambda>l. l_id l = linkId) (links st) = Some link"
    by (simp add: select_link_def split: if_splits)
  then have "link \<in> set (links st) \<and> l_id link = linkId"
    by (rule find_Some_member)
  then have "linkId \<in> set (map l_id (links st))"
    by auto
  then show ?thesis
    using assms by (simp add: get_c_def insert_click_def)
qed

lemma get_c_sqljs_found:
  "select_link_sqljs inj_sql g st linkId = Inr (url # others, st1) \<Longrightarrow>
   get_c_sqljs inj_sql g req st linkId =
     (if insert_throws g then (st1, Status_send 500 ''Error processing request'')
      else (st1\<lparr>clicks := clicks st1 @
              [\<lparr>c_id = next_id (map c_id (clicks st1)), c_link_id = linkId, c_clicked_at = now g,
                c_ip_address = js_or (hdr_x_forwarded_for req) (ip req),
                c_user_agent = js_or (hdr_user_agent req) ''Unknown''\<rparr>]\<rparr>,
            Redirect 302 url))"
  by (simp add: get_c_sqljs_def insert_click_sqljs_def)

text \<open>
  C1 (as amended). When the link lookup succeeds, the handler answers with the 302
  redirect to the stored \<open>original_url\<close> only if the insert of the Click row succeeds
  too, and then the row is appended. When the insert raises, the one \<open>catch\<close> around
  lookup, insert and redirect answers 500 with \<open>Error processing request\<close>, and no row
  is written. Both variants do so.
\<close>

theorem click_insert_failure_answers_500:
  assumes "select_link g st linkId = Inr (Some link)"
    and "select_link_sqljs inj_sql g st linkId = Inr (url # others, st1)"
  shows "get_c g req st linkId =
     (if insert_throws g then (st, Status_send 500 ''Error processing request'')
      else (st\<lparr>clicks := clicks st @
              [\<lparr>c_id = next_id (map c_id (clicks st)), c_link_id = linkId, c_clicked_at = now g,
                c_ip_address = js_or (hdr_x_forwarded_for req) (ip req),
                c_user_agent = js_or (hdr_user_agent req) ''Unknown''\<rparr>]\<rparr>,
            Redirect 302 (l_original_url link))) \<and>
   get_c_sqljs inj_sql g req st linkId =
     (if insert_throws g then (st1, Status_send 500 ''Error processing request'')
      else (st1\<lparr>clicks := clicks st1 @
              [\<lparr>c_id = next_id (map c_id (clicks st1)), c_link_id = linkId, c_clicked_at = now g,
                c_ip_address = js_or (hdr_x_forwarded_for req) (ip req),
                c_user_agent = js_or (hdr_user_agent req) ''Unknown''\<rparr>]\<rparr>,
            Redirect 302 url))"
  using assms by (simp add: get_c_found get_c_sqljs_found)

text \<open>
  The claim as written fails: the link is found, the insert raises, and the response is
  not the redirect but a 500.
\<close>

theorem click_insert_failure_counterexample:
  "select_link failing_insert store_with_link ''0a1b2c3d4e5f'' = Inr (Some sample_link) \<and>
   snd (get_c failing_insert sample_request store_with_link ''0a1b2c3d4e5f'')
     \<noteq> Redirect 302 (l_original_url sample_link) \<and>
   status_of (snd (get_c failing_insert sample_request store_with_link ''0a1b2c3d4e5f'')) = 500"
  by (simp add: select_link_def get_c_def insert_click_def failing_insert_def store_with_link_def
      empty_store_def sample_link_def)

theorem click_insert_failure_witness:
  "select_link failing_insert store_with_link ''0a1b2c3d4e5f'' = Inr (Some sample_link) \<and>
   select_link_sqljs refuse_rest failing_insert store_with_link ''0a1b2c3d4e5f''
     = Inr ([Some ''https://example.com''], store_with_link) \<and>
   get_c failing_insert sample_request store_with_link ''0a1b2c3d4e5f''
     = (store_with_link, Status_send 500 ''Error processing request'') \<and>
   get_c_sqljs refuse_rest failing_insert sample_request store_with_link ''0a1b2c3d4e5f''
     = (store_with_link, Status_send 500 ''Error processing request'')"
proof -
  have a: "select_link failing_insert store_with_link ''0a1b2c3d4e5f'' = Inr (Some sample_link)"
    by (simp add: select_link_def failing_insert_def store_with_link_def empty_store_def
        sample_link_def)
  have b: "select_link_sqljs refuse_rest failing_insert store_with_link ''0a1b2c3d4e5f''
     = Inr ([Some ''https://example.com''], store_with_link)"
    by (simp add: select_link_sqljs_def exec_interpolated_def failing_insert_def
        store_with_link_def empty_store_def sample_link_def)
  show ?thesis
    using click_insert_failure_answers_500 [OF a b, of sample_request] a b
    by (simp add: failing_insert_def)
qed


lemma find_distinct_key:
  "x \<in> set xs \<Longrightarrow> distinct (map k xs) \<Longrightarrow> find (\<lambda>y. k y = k x) xs = Some x"
  by (induction xs) (auto simp: image_iff)

lemma find_present_key:
  "v \<in> set (map k xs) \<Longrightarrow> \<exists>x. find (\<lambda>y. k y = v) xs = Some x"
  by (induction xs) auto

lemma find_absent_key:
  "v \<notin> set (map k xs) \<Longrightarrow> find (\<lambda>y. k y = v) xs = None"
  by (induction xs) auto

text \<open>
  C2 (as amended). On a store whose link ids are distinct (the primary key): when neither
  the lookup nor the insert raises and a Link row with the id exists, the response is the
  302 redirect to exactly its \<open>original_url\<close> and exactly one Click row, carrying the id,
  is appended, so the count of clicks of that link grows by one; when the lookup does not
  raise and no Link row has the id, the response is 404 and the store is unchanged; when
  the lookup raises, or the insert raises for an id that exists, the response is 500 and
  the store is unchanged. The second variant does the same for every id that has neither
  a quote nor a NUL character.
\<close>

theorem click_route_cases:
  assumes "distinct (map l_id (links st))"
  shows "(\<not> select_throws g \<and> \<not> insert_throws g \<longrightarrow>
            (\<forall>link \<in> set (links st). l_id link = linkId \<longrightarrow>
               get_c g req st linkId =
                 (st\<lparr>clicks := clicks st @
                    [\<lparr>c_id = next_id (map c_id (clicks st)), c_link_id = linkId,
                      c_clicked_at = now g,
                      c_ip_address = js_or (hdr_x_forwarded_for req) (ip req),
                      c_user_agent = js_or (hdr_user_agent req) ''Unknown''\<rparr>]\<rparr>,
                  Redirect 302 (l_original_url link)) \<and>
               length (filter (\<lambda>c. c_link_id c = linkId) (clicks (fst (get_c g req st linkId)))) =
                 Suc (length (filter (\<lambda>c. c_link_id c = linkId) (clicks st))))) \<and>
         (\<not> select_throws g \<and> linkId \<notin> set (map l_id (links st)) \<longrightarrow>
            get_c g req st linkId = (st, Status_send 404 ''Link not found'')) \<and>
         (select_throws g \<or> insert_throws g \<and> linkId \<in> set (map l_id (links st)) \<longrightarrow>
            get_c g req st linkId = (st, Status_send 500 ''Error processing request'')) \<and>
         (CHR 0x27 \<notin> set linkId \<and> CHR 0x00 \<notin> set linkId \<longrightarrow>
            get_c_sqljs inj_sql g req st linkId = get_c g req st linkId)"
proof (intro conjI impI ballI)
  fix link
  assume ok: "\<not> select_throws g \<and> \<not> insert_throws g"
    and link: "link \<in> set (links st)" "l_id link = linkId"
  have "find (\<lambda>l. l_id l = l_id link) (links st) = Some link"
    using link(1) assms by (rule find_distinct_key)
  then have sel: "select_link g st linkId = Inr (Some link)"
    using ok link(2) by (simp add: select_link_def)
  show r: "get_c g req st linkId =
      (st\<lparr>clicks := clicks st @
         [\<lparr>c_id = next_id (map c_id (clicks st)), c_link_id = linkId, c_clicked_at = now g,
           c_ip_address = js_or (hdr_x_forwarded_for req) (ip req),
           c_user_agent = js_or (hdr_user_agent req) ''Unknown''\<rparr>]\<rparr>,
       Redirect 302 (l_original_url link))"
    using ok by (simp add: get_c_found [OF sel])
  show "length (filter (\<lambda>c. c_link_id c = linkId) (clicks (fst (get_c g req st linkId)))) =
      Suc (length (filter (\<lambda>c. c_link_id c = linkId) (clicks st)))"
    by (simp add: r)
next
  assume a: "\<not> select_throws g \<and> linkId \<notin> set (map l_id (links st))"
  then have "find (\<lambda>l. l_id l = linkId) (links st) = None"
    by (intro find_absent_key) simp
  then show "get_c g req st linkId = (st, Status_send 404 ''Link not found'')"
    using a by (simp add: get_c_def select_link_def)
next
  assume a: "select_throws g \<or> insert_throws g \<and> linkId \<in> set (map l_id (links st))"
  show "get_c g req st linkId = (st, Status_send 500 ''Error processing request'')"
  proof (cases "select_throws g")
    case True
    then show ?thesis by (simp add: get_c_def select_link_def)
  next
    case False
    with a have i: "insert_throws g" and m: "linkId \<in> set (map l_id (links st))"
      by simp_all
    obtain link where "find (\<lambda>l. l_id l = linkId) (links st) = Some link"
      using find_present_key [OF m] by blast
    then have "select_link g st linkId = Inr (Some link)"
      using False by (simp add: select_link_def)
    then show ?thesis
      using i by (simp add: get_c_found)
  qed
next
  assume "CHR 0x27 \<notin> set linkId \<and> CHR 0x00 \<notin> set linkId"
  then show "get_c_sqljs inj_sql g req st linkId = get_c g req st linkId"
    by (simp add: get_c_sqljs_plain)
qed

text \<open>
  The claim as written fails: a Link row with the id exists, the insert raises, and the
  response is a 500 with no Click row written.
\<close>

theorem click_route_counterexample:
  "sample_link \<in> set (links store_with_link) \<and> l_id sample_link = ''0a1b2c3d4e5f'' \<and>
   get_c failing_insert sample_request store_with_link ''0a1b2c3d4e5f''
     = (store_with_link, Status_send 500 ''Error processing request'')"
  by (simp add: select_link_def get_c_def insert_click_def failing_insert_def store_with_link_def
      empty_store_def sample_link_def)

theorem click_route_witness:
  "get_c (engine_at 2000) sample_request store_with_link ''0a1b2c3d4e5f'' =
     (store_with_link\<lparr>clicks :=
        [\<lparr>c_id = 1, c_link_id = ''0a1b2c3d4e5f'', c_clicked_at = 2000,
          c_ip_address = ''203.0.113.7'', c_user_agent = ''Mozilla/5.0''\<rparr>]\<rparr>,
      Redirect 302 (Some ''https://example.com'')) \<and>
   get_c (engine_at 2000) sample_request store_with_link ''ffffffffffff'' =
     (store_with_link, Status_send 404 ''Link not found'') \<and>
   get_c failing_insert sample_request store_with_link ''0a1b2c3d4e5f'' =
     (store_with_link, Status_send 500 ''Error processing request'') \<and>
   get_c_sqljs refuse_rest (engine_at 2000) sample_request store_with_link ''0a1b2c3d4e5f'' =
     get_c (engine_at 2000) sample_request store_with_link ''0a1b2c3d4e5f''"
proof -
  have d: "distinct (map l_id (links store_with_link))"
    by (simp add: store_with_link_def empty_store_def)
  show ?thesis
    using click_route_cases [OF d, of "engine_at 2000" "''0a1b2c3d4e5f''" sample_request refuse_rest]
      click_route_cases [OF d, of "engine_at 2000" "''ffffffffffff''" sample_request refuse_rest]
      click_route_cases [OF d, of failing_insert "''0a1b2c3d4e5f''" sample_request refuse_rest]
    by (simp add: store_with_link_def empty_store_def sample_link_def sample_request_def
        engine_at_def failing_insert_def next_id_def js_or_def)
qed

text \<open>
  C9. The two variants are not equivalent on a text with a quote. For the link id that is
  one quote character, \<^verbatim>\<open>index.js\<close> looks the id up and answers 404; the second
  variant pastes it into the query, the literal never closes, the engine refuses the
  text, and the answer is 500. The listing differs the same way: an empty list there, a
  500 here.
\<close>


theorem pasted_quote_diverges:
  "get_c (engine_at 2000) sample_request store_with_link [CHR 0x27] =
     (store_with_link, Status_send 404 ''Link not found'') \<and>
   get_c_sqljs inj_sql (engine_at 2000) sample_request store_with_link [CHR 0x27] =
     (store_with_link, Status_send 500 ''Error processing request'') \<and>
   get_api_emails (engine_at 2000) store_with_link [CHR 0x27] = Json (Email_list []) \<and>
   get_api_emails_sqljs inj_sql2 (engine_at 2000) store_with_link [CHR 0x27] =
     (store_with_link, Status_json_error 500 ''Failed to fetch emails'')"
  by (simp add: get_c_def select_link_def get_c_sqljs_def select_link_sqljs_def
      exec_interpolated_def engine_at_def store_with_link_def empty_store_def sample_link_def
      sample_email_def get_api_emails_def get_api_emails_sqljs_def emails_query_def
      emails_query_tail_def order_by_desc_def)


text \<open>
  A NUL in the pasted text cuts the query short inside the literal: the same divergence,
  404 there and 500 here, for a registered link id followed by a NUL.
\<close>

lemma pasted_nul_diverges:
  "get_c (engine_at 2000) sample_request store_with_link (''0a1b2c3d4e5f'' @ [CHR 0x00]) =
     (store_with_link, Status_send 404 ''Link not found'') \<and>
   get_c_sqljs inj_sql (engine_at 2000) sample_request store_with_link
       (''0a1b2c3d4e5f'' @ [CHR 0x00]) =
     (store_with_link, Status_send 500 ''Error processing request'')"
  by (simp add: get_c_def select_link_def get_c_sqljs_def select_link_sqljs_def
      exec_interpolated_def engine_at_def store_with_link_def empty_store_def sample_link_def)

section \<open>Fetching the pixel repeatedly\<close>

lemma fetches_Cons:
  "fst (fetches h (r # rs) emailId st) = fst (fetches h rs emailId (fst (h (fst r) (snd r) st emailId)))"
  "snd (fetches h (r # rs) emailId st) =
     snd (h (fst r) (snd r) st emailId) # snd (fetches h rs emailId (fst (h (fst r) (snd r) st emailId)))"
  by (simp_all add: case_prod_unfold Let_def)

lemma fetches_sqljs_responses:
  "snd (fetches get_t_png_sqljs rs emailId st) = replicate (length rs) pixel_response"
  by (induction rs arbitrary: st)
     (simp_all add: fetches_Cons get_t_png_sqljs_response del: fetches.simps(2))

lemma fetches_sqljs_other_tables:
  "emails (fst (fetches get_t_png_sqljs rs emailId st)) = emails st \<and>
   links (fst (fetches get_t_png_sqljs rs emailId st)) = links st \<and>
   clicks (fst (fetches get_t_png_sqljs rs emailId st)) = clicks st"
  by (induction rs arbitrary: st)
     (simp_all add: fetches_Cons get_t_png_sqljs_store del: fetches.simps(2))

lemma fetches_sqljs_opens_of:
  "length (opens_of (fst (fetches get_t_png_sqljs rs emailId st)) emailId) =
     length (opens_of st emailId) + length (filter (\<lambda>r. \<not> insert_throws (fst r)) rs)"
  by (induction rs arbitrary: st)
     (simp_all add: fetches_Cons get_t_png_sqljs_store opens_of_def del: fetches.simps(2))

lemma fetches_sqljs_appends:
  "\<exists>new. opens (fst (fetches get_t_png_sqljs rs emailId st)) = opens st @ new \<and>
         length new = length (filter (\<lambda>r. \<not> insert_throws (fst r)) rs) \<and>
         list_all (\<lambda>ev. o_email_id ev = emailId) new"
proof (induction rs arbitrary: st)
  case Nil
  then show ?case by simp
next
  case (Cons r rs)
  let ?st1 = "fst (get_t_png_sqljs (fst r) (snd r) st emailId)"
  obtain new where new: "opens (fst (fetches get_t_png_sqljs rs emailId ?st1)) = opens ?st1 @ new"
    "length new = length (filter (\<lambda>r. \<not> insert_throws (fst r)) rs)"
    "list_all (\<lambda>ev. o_email_id ev = emailId) new"
    using Cons.IH [of ?st1] by blast
  define one where "one =
    (if insert_throws (fst r) then []
     else [\<lparr>o_id = next_id (map o_id (opens st)), o_email_id = emailId, o_opened_at = now (fst r),
            o_ip_address = js_or (hdr_x_forwarded_for (snd r)) (ip (snd r)),
            o_user_agent = js_or (hdr_user_agent (snd r)) ''Unknown''\<rparr>])"
  have one: "opens ?st1 = opens st @ one"
    "length one = (if insert_throws (fst r) then 0 else 1)"
    "list_all (\<lambda>ev. o_email_id ev = emailId) one"
    by (simp_all add: get_t_png_sqljs_store one_def)
  have "opens (fst (fetches get_t_png_sqljs (r # rs) emailId st)) = opens st @ (one @ new)"
    by (simp only: fetches_Cons(1) new(1) one(1) append_assoc)
  moreover have "length (one @ new) = length (filter (\<lambda>r. \<not> insert_throws (fst r)) (r # rs))"
    by (simp add: new(2) one(2))
  moreover have "list_all (\<lambda>ev. o_email_id ev = emailId) (one @ new)"
    by (simp add: new(3) one(3))
  ultimately show ?case by blast
qed

text \<open>
  The fetches never touch the emails table, so whether the id is that of a registered
  email is decided once: if it is, \<^verbatim>\<open>index.js\<close> does what the second variant
  does; if it is not, every insert is refused and the store stays as it was.
\<close>

lemma fetches_by_sqljs:
  "fetches get_t_png rs emailId st =
     (if emailId \<in> set (map e_id (emails st)) then fetches get_t_png_sqljs rs emailId st
      else (st, replicate (length rs) pixel_response))"
proof (induction rs arbitrary: st)
  case Nil
  then show ?case by simp
next
  case (Cons r rs)
  show ?case
  proof (cases "emailId \<in> set (map e_id (emails st))")
    case True
    let ?st1 = "fst (get_t_png_sqljs (fst r) (snd r) st emailId)"
    have h: "get_t_png (fst r) (snd r) st emailId = get_t_png_sqljs (fst r) (snd r) st emailId"
      using True by (simp add: get_t_png_by_sqljs)
    have "emails ?st1 = emails st"
      by (simp add: get_t_png_sqljs_store)
    then have "fetches get_t_png rs emailId ?st1 = fetches get_t_png_sqljs rs emailId ?st1"
      using True Cons.IH [of ?st1] by simp
    then have "fetches get_t_png (r # rs) emailId st = fetches get_t_png_sqljs (r # rs) emailId st"
      by (intro prod_eqI) (simp_all only: fetches_Cons h)
    then show ?thesis using True by simp
  next
    case False
    have h: "get_t_png (fst r) (snd r) st emailId = (st, pixel_response)"
      using False by (simp add: get_t_png_by_sqljs)
    have "fetches get_t_png rs emailId st = (st, replicate (length rs) pixel_response)"
      using False Cons.IH [of st] by simp
    then have "fetches get_t_png (r # rs) emailId st =
        (st, replicate (length (r # rs)) pixel_response)"
      by (intro prod_eqI) (simp_all add: fetches_Cons h del: fetches.simps(2))
    then show ?thesis using False by simp
  qed
qed

text \<open>
  C5 (as amended). Fetching the pixel for an email id, once per request of a list,
  appends one Open row carrying that id for each fetch whose insert succeeded, and
  nothing else: exactly N rows for N fetches when no insert fails. In the second variant
  an insert fails when the engine raises; in \<^verbatim>\<open>index.js\<close> it fails also when the id
  is not that of a registered email (the foreign key), and then no fetch appends a row.
  Every response is the same \<open>pixel_response\<close>, whose Cache-Control header carries
  \<open>no-store\<close>.
\<close>

theorem pixel_fetches_append_one_row_per_successful_insert:
  "(\<exists>new. opens (fst (fetches get_t_png rs emailId st)) = opens st @ new \<and>
          length new =
            (if emailId \<in> set (map e_id (emails st))
             then length (filter (\<lambda>r. \<not> insert_throws (fst r)) rs) else 0) \<and>
          list_all (\<lambda>ev. o_email_id ev = emailId) new) \<and>
   (\<exists>new. opens (fst (fetches get_t_png_sqljs rs emailId st)) = opens st @ new \<and>
          length new = length (filter (\<lambda>r. \<not> insert_throws (fst r)) rs) \<and>
          list_all (\<lambda>ev. o_email_id ev = emailId) new) \<and>
   length (opens_of (fst (fetches get_t_png rs emailId st)) emailId) =
     length (opens_of st emailId) +
       (if emailId \<in> set (map e_id (emails st))
        then length (filter (\<lambda>r. \<not> insert_throws (fst r)) rs) else 0) \<and>
   length (opens_of (fst (fetches get_t_png_sqljs rs emailId st)) emailId) =
     length (opens_of st emailId) + length (filter (\<lambda>r. \<not> insert_throws (fst r)) rs) \<and>
   (emailId \<in> set (map e_id (emails st)) \<and> list_all (\<lambda>r. \<not> insert_throws (fst r)) rs \<longrightarrow>
      length (opens_of (fst (fetches get_t_png rs emailId st)) emailId) =
        length (opens_of st emailId) + length rs) \<and>
   (list_all (\<lambda>r. \<not> insert_throws (fst r)) rs \<longrightarrow>
      length (opens_of (fst (fetches get_t_png_sqljs rs emailId st)) emailId) =
        length (opens_of st emailId) + length rs) \<and>
   snd (fetches get_t_png rs emailId st) = replicate (length rs) pixel_response \<and>
   snd (fetches get_t_png_sqljs rs emailId st) = replicate (length rs) pixel_response \<and>
   map_of (sent_headers pixel_response) ''Cache-Control'' =
     Some (HStr ''no-store, no-cache, must-revalidate, private'') \<and>
   prefix ''no-store'' ''no-store, no-cache, must-revalidate, private''"
proof -
  have all: "list_all (\<lambda>r. \<not> insert_throws (fst r)) rs \<Longrightarrow>
      filter (\<lambda>r. \<not> insert_throws (fst r)) rs = rs"
    by (simp add: list_all_iff)
  have 1: "\<exists>new. opens (fst (fetches get_t_png rs emailId st)) = opens st @ new \<and>
          length new =
            (if emailId \<in> set (map e_id (emails st))
             then length (filter (\<lambda>r. \<not> insert_throws (fst r)) rs) else 0) \<and>
          list_all (\<lambda>ev. o_email_id ev = emailId) new"
  proof (cases "emailId \<in> set (map e_id (emails st))")
    case True
    then show ?thesis
      using fetches_sqljs_appends [of rs emailId st] by (simp add: fetches_by_sqljs)
  next
    case False
    then show ?thesis
      by (simp add: fetches_by_sqljs)
  qed
  have 2: "length (opens_of (fst (fetches get_t_png rs emailId st)) emailId) =
     length (opens_of st emailId) +
       (if emailId \<in> set (map e_id (emails st))
        then length (filter (\<lambda>r. \<not> insert_throws (fst r)) rs) else 0)"
    by (simp add: fetches_by_sqljs fetches_sqljs_opens_of)
  have 3: "snd (fetches get_t_png rs emailId st) = replicate (length rs) pixel_response"
    by (simp add: fetches_by_sqljs fetches_sqljs_responses)
  have 4: "map_of (sent_headers pixel_response) ''Cache-Control'' =
     Some (HStr ''no-store, no-cache, must-revalidate, private'')"
    by (simp add: pixel_response_def)
  have 5: "prefix ''no-store'' ''no-store, no-cache, must-revalidate, private''"
    by simp
  show ?thesis
    using 1 2 3 4 5 all fetches_sqljs_appends [of rs emailId st]
      fetches_sqljs_opens_of [of rs emailId st] fetches_sqljs_responses [of rs emailId st]
    by simp
qed

text \<open>
  The claim as written fails in \<^verbatim>\<open>index.js\<close>: one fetch for an id that no email
  has appends no row although the engine does not raise, and one fetch for a registered
  id appends none when the insert raises.
\<close>

theorem pixel_fetches_counterexample:
  "\<not> insert_throws (engine_at 2000) \<and>
   length (opens_of (fst (fetches get_t_png [(engine_at 2000, sample_request)] ''00112233445566ff''
       empty_store)) ''00112233445566ff'')
     \<noteq> length (opens_of empty_store ''00112233445566ff'') + length [(engine_at 2000, sample_request)] \<and>
   ''00112233445566ff'' \<in> set (map e_id (emails store_with_link)) \<and>
   length (opens_of (fst (fetches get_t_png [(failing_insert, sample_request)] ''00112233445566ff''
       store_with_link)) ''00112233445566ff'')
     \<noteq> length (opens_of store_with_link ''00112233445566ff'') + length [(failing_insert, sample_request)]"
  by (simp add: get_t_png_def insert_open_def failing_insert_def engine_at_def opens_of_def
      empty_store_def store_with_link_def sample_email_def)

theorem pixel_fetches_witness:
  "''00112233445566ff'' \<in> set (map e_id (emails store_with_link)) \<and>
   list_all (\<lambda>r. \<not> insert_throws (fst r))
     [(engine_at 2000, sample_request), (engine_at 2060, sample_request)] \<and>
   length (opens_of (fst (fetches get_t_png
       [(engine_at 2000, sample_request), (engine_at 2060, sample_request)]
       ''00112233445566ff'' store_with_link)) ''00112233445566ff'') = 2 \<and>
   length (opens_of (fst (fetches get_t_png_sqljs
       [(engine_at 2000, sample_request), (engine_at 2060, sample_request)]
       ''00112233445566ff'' empty_store)) ''00112233445566ff'') = 2"
  using pixel_fetches_append_one_row_per_successful_insert
    [of "[(engine_at 2000, sample_request), (engine_at 2060, sample_request)]"
        "''00112233445566ff''" store_with_link]
    pixel_fetches_append_one_row_per_successful_insert
    [of "[(engine_at 2000, sample_request), (engine_at 2060, sample_request)]"
        "''00112233445566ff''" empty_store]
  by (simp add: engine_at_def opens_of_def empty_store_def store_with_link_def sample_email_def)

section \<open>Registration\<close>

lemma post_api_emails_created:
  assumes "post_api_emails env g rnd req st b = (st', Json (Email_created emailId url))"
  shows "emailId = toString_hex (randomBytes 8 rnd) \<and>
     emailId \<notin> set (map e_id (emails st)) \<and>
     url = getBaseUrl env req @ ''/t/'' @ emailId @ ''.png'' \<and>
     st' = st\<lparr>emails := emails st @
        [\<lparr>e_id = emailId, e_subject = body_subject b, e_recipient = body_recipient b,
          e_sent_at = now g, e_user_email = body_userEmail b\<rparr>]\<rparr>"
  using assms
  by (auto simp: post_api_emails_def insert_email_def Let_def split: if_splits)

lemma post_api_links_created:
  assumes "post_api_links env g rnd req st b = (st', Json (Link_created linkId url))"
  shows "linkId = toString_hex (randomBytes 6 rnd) \<and>
     linkId \<notin> set (map l_id (links st)) \<and>
     url = getBaseUrl env req @ ''/c/'' @ linkId \<and>
     st' = st\<lparr>links := links st @
        [\<lparr>l_id = linkId, l_email_id = body_emailId b, l_original_url = body_originalUrl b,
          l_created_at = now g\<rparr>]\<rparr>"
  using assms
  by (auto simp: post_api_links_def insert_link_def Let_def split: if_splits)

text \<open>
  C6. When the registration of an email succeeds, the id it returns is not among the ids
  the emails table held (the primary key refuses the insert otherwise, and the handler
  then answers 500), so the ids of the table stay distinct, and the pixel URL it returns is
  the base URL, \<open>/t/\<close>, the id as it is, and \<open>.png\<close>. Likewise for a link: the id is
  new to the links table and the tracked URL is the base URL, \<open>/c/\<close> and the id.
\<close>


theorem registration_ids_are_fresh:
  assumes "post_api_emails env g rnd req st b = (st', Json (Email_created emailId pixelUrl))"
    and "post_api_links env2 g2 rnd2 req2 st2 b2 = (st2', Json (Link_created linkId trackedUrl))"
  shows "emailId \<notin> set (map e_id (emails st)) \<and>
     pixelUrl = getBaseUrl env req @ ''/t/'' @ emailId @ ''.png'' \<and>
     map e_id (emails st') = map e_id (emails st) @ [emailId] \<and>
     distinct (map e_id (emails st')) = distinct (map e_id (emails st)) \<and>
     linkId \<notin> set (map l_id (links st2)) \<and>
     trackedUrl = getBaseUrl env2 req2 @ ''/c/'' @ linkId \<and>
     map l_id (links st2') = map l_id (links st2) @ [linkId] \<and>
     distinct (map l_id (links st2')) = distinct (map l_id (links st2))"
proof -
  note e = post_api_emails_created [OF assms(1)]
  note l = post_api_links_created [OF assms(2)]
  have "map e_id (emails st') = map e_id (emails st) @ [emailId]"
    using e by simp
  moreover have "map l_id (links st2') = map l_id (links st2) @ [linkId]"
    using l by simp
  ultimately show ?thesis
    using e l by auto
qed

lemma hex_ab: "toString_hex (randomBytes 8 (\<lambda>i. 0xAB)) = ''abababababababab''"
  by (simp add: toString_hex_def randomBytes_def hex_digit_def upt_rec)

lemma hex_3c: "toString_hex (randomBytes 6 (\<lambda>i. 0x3C)) = ''3c3c3c3c3c3c''"
  by (simp add: toString_hex_def randomBytes_def hex_digit_def upt_rec)

theorem registration_witness:
  "post_api_emails sample_env (engine_at 900) (\<lambda>i. 0xAB) sample_request empty_store
      \<lparr>body_subject = Some ''Hello'', body_recipient = Some ''bob@example.com'',
       body_userEmail = Some ''alice@example.com''\<rparr>
    = (empty_store\<lparr>emails :=
         [\<lparr>e_id = ''abababababababab'', e_subject = Some ''Hello'',
           e_recipient = Some ''bob@example.com'', e_sent_at = 900,
           e_user_email = Some ''alice@example.com''\<rparr>]\<rparr>,
       Json (Email_created ''abababababababab'' ''https://tracker.example/t/abababababababab.png'')) \<and>
   post_api_links sample_env (engine_at 1000) (\<lambda>i. 0x3C) sample_request store_with_link
      \<lparr>body_emailId = Some ''00112233445566ff'', body_originalUrl = Some ''https://example.org''\<rparr>
    = (store_with_link\<lparr>links := [sample_link,
         \<lparr>l_id = ''3c3c3c3c3c3c'', l_email_id = Some ''00112233445566ff'',
           l_original_url = Some ''https://example.org'', l_created_at = 1000\<rparr>]\<rparr>,
       Json (Link_created ''3c3c3c3c3c3c'' ''https://tracker.example/c/3c3c3c3c3c3c'')) \<and>
   ''abababababababab'' \<notin> set (map e_id (emails empty_store)) \<and>
   ''3c3c3c3c3c3c'' \<notin> set (map l_id (links store_with_link))"
proof -
  have a: "post_api_emails sample_env (engine_at 900) (\<lambda>i. 0xAB) sample_request empty_store
      \<lparr>body_subject = Some ''Hello'', body_recipient = Some ''bob@example.com'',
       body_userEmail = Some ''alice@example.com''\<rparr>
    = (empty_store\<lparr>emails :=
         [\<lparr>e_id = ''abababababababab'', e_subject = Some ''Hello'',
           e_recipient = Some ''bob@example.com'', e_sent_at = 900,
           e_user_email = Some ''alice@example.com''\<rparr>]\<rparr>,
       Json (Email_created ''abababababababab'' ''https://tracker.example/t/abababababababab.png''))"
    by (simp add: post_api_emails_def insert_email_def hex_ab getBaseUrl_def js_or_def Let_def
        js_template_def sample_env_def sample_request_def engine_at_def empty_store_def)
  have b: "post_api_links sample_env (engine_at 1000) (\<lambda>i. 0x3C) sample_request store_with_link
      \<lparr>body_emailId = Some ''00112233445566ff'', body_originalUrl = Some ''https://example.org''\<rparr>
    = (store_with_link\<lparr>links := [sample_link,
         \<lparr>l_id = ''3c3c3c3c3c3c'', l_email_id = Some ''00112233445566ff'',
           l_original_url = Some ''https://example.org'', l_created_at = 1000\<rparr>]\<rparr>,
       Json (Link_created ''3c3c3c3c3c3c'' ''https://tracker.example/c/3c3c3c3c3c3c''))"
    by (simp add: post_api_links_def insert_link_def hex_3c getBaseUrl_def js_or_def Let_def
        js_template_def sample_env_def sample_request_def engine_at_def empty_store_def
        store_with_link_def sample_link_def sample_email_def)
  show ?thesis
    using registration_ids_are_fresh [OF a b] a b by simp
qed

section \<open>The stats block of the detail route\<close>

lemma distinct_map_insort:
  "distinct (map f (insort_key k x xs)) \<longleftrightarrow> f x \<notin> f ` set xs \<and> distinct (map f xs)"
  by (induction xs) (auto simp: set_insort_key)

lemma distinct_map_sort: "distinct (map f (sort_key k xs)) \<longleftrightarrow> distinct (map f xs)"
  by (induction xs) (simp_all add: distinct_map_insort)

lemma distinct_map_order_by_desc:
  "distinct (map f (order_by_desc k xs)) \<longleftrightarrow> distinct (map f xs)"
proof -
  have "distinct (map f (order_by_desc k xs)) \<longleftrightarrow> distinct (rev (map f (sort_key k (rev xs))))"
    by (simp only: order_by_desc_def rev_map)
  also have "\<dots> \<longleftrightarrow> distinct (map f (rev xs))"
    by (simp only: distinct_rev distinct_map_sort)
  also have "\<dots> \<longleftrightarrow> distinct (map f xs)"
    by (simp only: rev_map [symmetric] distinct_rev)
  finally show ?thesis .
qed

lemma stats_of_sqljs_eq: "stats_of_sqljs os cs = stats_of os cs"
  by (simp add: stats_of_sqljs_def stats_of_def Let_def)

text \<open>
  C7. For an email id that exists (and reads that do not raise), the detail route answers
  with a stats block in which \<open>uniqueOpens \<le> totalOpens\<close> and
  \<open>uniqueClicks \<le> totalClicks\<close>; the totals count the opens of the email and the
  clicks on its links, the unique counts their distinct IP addresses; and when the
  recorded addresses of the opens (of the clicks) are pairwise distinct, the two numbers
  are equal. The stats block of the second variant computes the same numbers.
\<close>


theorem detail_stats_unique_at_most_total:
  assumes "\<not> select_throws g" and "emailId \<in> set (map e_id (emails st))"
  shows "\<exists>d. get_api_email g st emailId = Json (Email_detail d) \<and>
     d_stats d = stats_of (d_opens d) (d_clicks d) \<and>
     d_stats d = stats_of_sqljs (d_opens d) (d_clicks d) \<and>
     totalOpens (d_stats d) = length (opens_of st emailId) \<and>
     totalClicks (d_stats d) = length (clicks_of st emailId) \<and>
     uniqueOpens (d_stats d) = card (o_ip_address ` set (opens_of st emailId)) \<and>
     uniqueClicks (d_stats d) = card ((\<lambda>p. c_ip_address (fst p)) ` set (clicks_of st emailId)) \<and>
     uniqueOpens (d_stats d) \<le> totalOpens (d_stats d) \<and>
     uniqueClicks (d_stats d) \<le> totalClicks (d_stats d) \<and>
     (distinct (map o_ip_address (opens_of st emailId)) \<longrightarrow>
        uniqueOpens (d_stats d) = totalOpens (d_stats d)) \<and>
     (distinct (map (\<lambda>p. c_ip_address (fst p)) (clicks_of st emailId)) \<longrightarrow>
        uniqueClicks (d_stats d) = totalClicks (d_stats d))"
proof -
  obtain email where email: "find (\<lambda>e. e_id e = emailId) (emails st) = Some email"
    using find_present_key [OF assms(2)] by blast
  define os where "os = map open_view_of (order_by_desc o_opened_at (opens_of st emailId))"
  define cs where
    "cs = map click_view_of (order_by_desc (\<lambda>p. c_clicked_at (fst p)) (clicks_of st emailId))"
  define d where "d = \<lparr>d_email = email, d_opens = os,
    d_links = map (link_view_of st) (filter (\<lambda>l. l_email_id l = Some emailId) (links st)),
    d_clicks = cs, d_stats = stats_of os cs\<rparr>"
  have r: "get_api_email g st emailId = Json (Email_detail d)"
    using assms(1) email by (simp add: get_api_email_def Let_def d_def os_def cs_def)
  have oip: "map ov_ip_address os = map o_ip_address (order_by_desc o_opened_at (opens_of st emailId))"
    by (simp add: os_def open_view_of_def)
  have cip: "map cv_ip_address cs =
      map (\<lambda>p. c_ip_address (fst p)) (order_by_desc (\<lambda>p. c_clicked_at (fst p)) (clicks_of st emailId))"
    by (simp add: cs_def click_view_of_def)
  have lo: "length os = length (opens_of st emailId)"
    by (simp add: os_def order_by_desc_def)
  have lc: "length cs = length (clicks_of st emailId)"
    by (simp add: cs_def order_by_desc_def)
  have so: "set (map ov_ip_address os) = o_ip_address ` set (opens_of st emailId)"
    by (simp add: oip order_by_desc_def)
  have sc: "set (map cv_ip_address cs) = (\<lambda>p. c_ip_address (fst p)) ` set (clicks_of st emailId)"
    by (simp add: cip order_by_desc_def)
  have uo: "uniqueOpens (d_stats d) = length (remdups (map ov_ip_address os))"
    and uc: "uniqueClicks (d_stats d) = length (remdups (map cv_ip_address cs))"
    and to: "totalOpens (d_stats d) = length os" and tc: "totalClicks (d_stats d) = length cs"
    by (simp_all add: d_def stats_of_def)
  have do: "distinct (map ov_ip_address os) \<longleftrightarrow> distinct (map o_ip_address (opens_of st emailId))"
    by (simp only: oip distinct_map_order_by_desc)
  have dc: "distinct (map cv_ip_address cs) \<longleftrightarrow>
      distinct (map (\<lambda>p. c_ip_address (fst p)) (clicks_of st emailId))"
    by (simp only: cip distinct_map_order_by_desc)
  have 1: "d_stats d = stats_of (d_opens d) (d_clicks d)"
    by (simp add: d_def)
  have 2: "uniqueOpens (d_stats d) = card (o_ip_address ` set (opens_of st emailId))"
    by (simp only: uo so [symmetric] length_remdups_card_conv)
  have 3: "uniqueClicks (d_stats d) = card ((\<lambda>p. c_ip_address (fst p)) ` set (clicks_of st emailId))"
    by (simp only: uc sc [symmetric] length_remdups_card_conv)
  have 4: "uniqueOpens (d_stats d) \<le> totalOpens (d_stats d)"
    unfolding uo to by (metis length_remdups_leq length_map)
  have 5: "uniqueClicks (d_stats d) \<le> totalClicks (d_stats d)"
    unfolding uc tc by (metis length_remdups_leq length_map)
  have 6: "distinct (map o_ip_address (opens_of st emailId)) \<Longrightarrow>
      uniqueOpens (d_stats d) = totalOpens (d_stats d)"
    unfolding uo to using do by (metis distinct_remdups_id length_map)
  have 7: "distinct (map (\<lambda>p. c_ip_address (fst p)) (clicks_of st emailId)) \<Longrightarrow>
      uniqueClicks (d_stats d) = totalClicks (d_stats d)"
    unfolding uc tc using dc by (metis distinct_remdups_id length_map)
  show ?thesis
    using r 1 2 3 4 5 6 7 to tc lo lc by (intro exI [of _ d]) (simp add: stats_of_sqljs_eq)
qed

lemma scenario_store_rows:
  "scenario_store =
     \<lparr>emails = [\<lparr>e_id = ''abababababababab'', e_subject = Some ''Hello'',
                  e_recipient = Some ''bob@example.com'', e_sent_at = 900,
                  e_user_email = Some ''alice@example.com''\<rparr>],
      opens = [\<lparr>o_id = 1, o_email_id = ''abababababababab'', o_opened_at = 1100,
                 o_ip_address = ''203.0.113.7'', o_user_agent = ''Mozilla/5.0''\<rparr>],
      links = [\<lparr>l_id = ''3c3c3c3c3c3c'', l_email_id = Some ''abababababababab'',
                 l_original_url = Some ''https://example.com'', l_created_at = 1000\<rparr>],
      clicks = [\<lparr>c_id = 1, c_link_id = ''3c3c3c3c3c3c'', c_clicked_at = 1200,
                  c_ip_address = ''198.51.100.1'', c_user_agent = ''Mozilla/5.0''\<rparr>,
                \<lparr>c_id = 2, c_link_id = ''3c3c3c3c3c3c'', c_clicked_at = 1300,
                  c_ip_address = ''198.51.100.2'', c_user_agent = ''Mozilla/5.0''\<rparr>]\<rparr>"
  by (simp add: Let_def scenario_store_def post_api_emails_def post_api_links_def insert_email_def
      insert_link_def hex_ab hex_3c get_t_png_def insert_open_def get_c_def select_link_def
      insert_click_def engine_at_def empty_store_def sample_request_def next_id_def js_or_def)

theorem detail_stats_witness:
  "\<not> select_throws (engine_at 1400) \<and>
   ''abababababababab'' \<in> set (map e_id (emails scenario_store)) \<and>
   (\<exists>d. get_api_email (engine_at 1400) scenario_store ''abababababababab'' = Json (Email_detail d) \<and>
        totalOpens (d_stats d) = 1 \<and> uniqueOpens (d_stats d) = 1 \<and>
        totalClicks (d_stats d) = 2 \<and> uniqueClicks (d_stats d) = 2)"
proof -
  have a: "\<not> select_throws (engine_at 1400)"
    by (simp add: engine_at_def)
  have b: "''abababababababab'' \<in> set (map e_id (emails scenario_store))"
    by (simp add: scenario_store_rows)
  have o: "map o_ip_address (opens_of scenario_store ''abababababababab'') = [''203.0.113.7'']"
    by (simp add: scenario_store_rows opens_of_def)
  have c: "map (\<lambda>p. c_ip_address (fst p)) (clicks_of scenario_store ''abababababababab'')
      = [''198.51.100.1'', ''198.51.100.2'']"
    by (simp add: scenario_store_rows clicks_of_def clicks_join_links_def)
  have lo: "length (opens_of scenario_store ''abababababababab'') = 1"
    using arg_cong [OF o, of length] by simp
  have lc: "length (clicks_of scenario_store ''abababababababab'') = 2"
    using arg_cong [OF c, of length] by simp
  show ?thesis
    using detail_stats_unique_at_most_total [OF a b] a b
    by (auto simp: o c lo lc)
qed

section \<open>Opens by day\<close>

lemma count_list_map:
  "count_list (map f xs) d = length (filter (\<lambda>x. f x = d) xs)"
  by (induction xs) auto

text \<open>
  C8. The \<open>opensByDay\<close> list of the aggregate route (\<^verbatim>\<open>index.js\<close>) is ordered by
  date, strictly ascending, so it has one entry per day; a day has an entry exactly when
  it is the day seven days before today or a later one and at least one open of an email
  of the user falls on it; and the count of an entry is the number of those opens, never
  zero: a day without opens has no entry.
\<close>


theorem opens_by_day_sparse_ascending:
  assumes "get_api_stats g st userEmail = Json (Aggregate a)"
  shows "sorted_wrt (<) (map fst (opensByDay a)) \<and>
     (\<forall>d. d \<in> set (map fst (opensByDay a)) \<longleftrightarrow>
        DATE (now g) \<le> d + 7 \<and>
        (\<exists>ev \<in> set (opens st). \<exists>e \<in> set (emails st).
            o_email_id ev = e_id e \<and> e_user_email e = Some userEmail \<and>
            DATE (o_opened_at ev) = d)) \<and>
     (\<forall>d n. (d, n) \<in> set (opensByDay a) \<longrightarrow>
        0 < n \<and>
        n = length (filter (\<lambda>p. DATE (o_opened_at (fst p)) = d) (opens_join_emails st userEmail)))"
proof -
  define days where "days = map (\<lambda>p. DATE (o_opened_at (fst p)))
       (filter (\<lambda>p. DATE (now g) \<le> DATE (o_opened_at (fst p)) + 7)
          (opens_join_emails st userEmail))"
  have a: "opensByDay a = map (\<lambda>d. (d, count_list days d)) (sort (remdups days))"
    using assms by (auto simp: get_api_stats_def opens_by_day_def Let_def days_def split: if_splits)
  have fsts: "map fst (opensByDay a) = sort (remdups days)"
    by (simp add: a o_def)
  have 1: "sorted_wrt (<) (map fst (opensByDay a))"
    by (simp add: fsts strict_sorted_iff)
  have 2: "d \<in> set (map fst (opensByDay a)) \<longleftrightarrow>
        DATE (now g) \<le> d + 7 \<and>
        (\<exists>ev \<in> set (opens st). \<exists>e \<in> set (emails st).
            o_email_id ev = e_id e \<and> e_user_email e = Some userEmail \<and>
            DATE (o_opened_at ev) = d)" for d
  proof
    assume "d \<in> set (map fst (opensByDay a))"
    then obtain p where p: "p \<in> set (opens_join_emails st userEmail)"
        "DATE (now g) \<le> DATE (o_opened_at (fst p)) + 7" "d = DATE (o_opened_at (fst p))"
      unfolding fsts by (auto simp: days_def)
    from p(1) have "fst p \<in> set (opens st)" "snd p \<in> set (emails st)"
        "o_email_id (fst p) = e_id (snd p)" "e_user_email (snd p) = Some userEmail"
      by (auto simp: opens_join_emails_def)
    with p(2,3) show "DATE (now g) \<le> d + 7 \<and>
        (\<exists>ev \<in> set (opens st). \<exists>e \<in> set (emails st).
            o_email_id ev = e_id e \<and> e_user_email e = Some userEmail \<and>
            DATE (o_opened_at ev) = d)"
      by blast
  next
    assume "DATE (now g) \<le> d + 7 \<and>
        (\<exists>ev \<in> set (opens st). \<exists>e \<in> set (emails st).
            o_email_id ev = e_id e \<and> e_user_email e = Some userEmail \<and>
            DATE (o_opened_at ev) = d)"
    then obtain ev e where w: "DATE (now g) \<le> d + 7" and ev: "ev \<in> set (opens st)"
        "e \<in> set (emails st)" "o_email_id ev = e_id e" "e_user_email e = Some userEmail"
        "DATE (o_opened_at ev) = d"
      by blast
    from ev have "(ev, e) \<in> set (opens_join_emails st userEmail)"
      by (simp add: opens_join_emails_def)
    with w ev(5) have "d \<in> set days"
      by (force simp: days_def)
    then show "d \<in> set (map fst (opensByDay a))"
      by (simp add: fsts)
  qed
  have 3: "0 < n \<and>
        n = length (filter (\<lambda>p. DATE (o_opened_at (fst p)) = d) (opens_join_emails st userEmail))"
    if "(d, n) \<in> set (opensByDay a)" for d n
  proof -
    from that have d: "d \<in> set days" and n: "n = count_list days d"
      by (auto simp: a)
    have w: "DATE (now g) \<le> d + 7"
      using d by (auto simp: days_def)
    have "count_list days d =
        length (filter (\<lambda>p. DATE (o_opened_at (fst p)) = d)
          (filter (\<lambda>p. DATE (now g) \<le> DATE (o_opened_at (fst p)) + 7)
             (opens_join_emails st userEmail)))"
      by (simp add: days_def count_list_map)
    also have "\<dots> = length (filter (\<lambda>p. DATE (o_opened_at (fst p)) = d)
        (opens_join_emails st userEmail))"
      using w by (auto intro!: arg_cong [where f = length] filter_cong)
    finally have "n = length (filter (\<lambda>p. DATE (o_opened_at (fst p)) = d)
        (opens_join_emails st userEmail))"
      using n by simp
    moreover have "0 < n"
      using d n count_list_0_iff [of days d] by (cases n) auto
    ultimately show ?thesis by simp
  qed
  show ?thesis
    using 1 2 3 by blast
qed


theorem opens_by_day_witness:
  "get_api_stats (engine_at (10 * 86400 + 3600)) week_store ''alice@example.com'' =
     Json (Aggregate \<lparr>total_emails = 1, total_opens = 4, total_clicks = 0,
                      opensByDay = [(3, 2), (9, 1)]\<rparr>) \<and>
   sorted_wrt (<) (map fst [(3 :: nat, 2 :: nat), (9, 1)])"
proof -
  have a: "get_api_stats (engine_at (10 * 86400 + 3600)) week_store ''alice@example.com'' =
     Json (Aggregate \<lparr>total_emails = 1, total_opens = 4, total_clicks = 0,
                      opensByDay = [(3, 2), (9, 1)]\<rparr>)"
    by (simp add: get_api_stats_def opens_by_day_def opens_join_emails_def
        clicks_join_emails_def week_store_def sample_email_def engine_at_def DATE_def Let_def)
  show ?thesis
    using opens_by_day_sparse_ascending [OF a] a by simp
qed

section \<open>Aggregate totals and the listing\<close>

lemma length_filter_sum: "length (filter P xs) = (\<Sum>x\<leftarrow>xs. if P x then 1 else 0)"
  by (induction xs) auto

lemma sum_list_product:
  "(\<Sum>p\<leftarrow>List.product xs ys. f p) = (\<Sum>x\<leftarrow>xs. \<Sum>y\<leftarrow>ys. f (x, y))"
  by (induction xs) (simp_all add: o_def)

lemma sum_list_exchange:
  "(\<Sum>x\<leftarrow>xs. \<Sum>y\<leftarrow>ys. (f x y :: nat)) = (\<Sum>y\<leftarrow>ys. \<Sum>x\<leftarrow>xs. f x y)"
  by (induction xs) (simp_all add: sum_list_addf)

lemma sum_list_insort:
  "(\<Sum>y\<leftarrow>insort_key k x xs. (f y :: nat)) = f x + (\<Sum>y\<leftarrow>xs. f y)"
  by (induction xs) auto

lemma sum_list_sort_key: "(\<Sum>y\<leftarrow>sort_key k xs. (f y :: nat)) = (\<Sum>y\<leftarrow>xs. f y)"
  by (induction xs) (simp_all add: sum_list_insort)

lemma sum_list_order_by_desc: "(\<Sum>y\<leftarrow>order_by_desc k xs. (f y :: nat)) = (\<Sum>y\<leftarrow>xs. f y)"
proof -
  have "(\<Sum>y\<leftarrow>order_by_desc k xs. f y) = sum_list (rev (map f (sort_key k (rev xs))))"
    by (simp only: order_by_desc_def rev_map)
  also have "\<dots> = (\<Sum>y\<leftarrow>rev xs. f y)"
    by (simp only: sum_list_rev sum_list_sort_key)
  also have "\<dots> = (\<Sum>y\<leftarrow>xs. f y)"
    by (simp only: rev_map [symmetric] sum_list_rev)
  finally show ?thesis .
qed

lemma sum_list_take_le: "(\<Sum>y\<leftarrow>take n xs. (f y :: nat)) \<le> (\<Sum>y\<leftarrow>xs. f y)"
proof -
  have "(\<Sum>y\<leftarrow>xs. f y) = (\<Sum>y\<leftarrow>take n xs @ drop n xs. f y)"
    by simp
  also have "\<dots> = (\<Sum>y\<leftarrow>take n xs. f y) + (\<Sum>y\<leftarrow>drop n xs. f y)"
    by (simp only: map_append sum_list_append)
  finally show ?thesis by simp
qed

text \<open>The emails a user owns.\<close>

lemma total_opens_per_email:
  "length (opens_join_emails st userEmail) =
     (\<Sum>e\<leftarrow>filter (\<lambda>e. e_user_email e = Some userEmail) (emails st). length (opens_of st (e_id e)))"
proof -
  have "length (opens_join_emails st userEmail) =
      (\<Sum>ev\<leftarrow>opens st. \<Sum>e\<leftarrow>emails st.
         if o_email_id ev = e_id e \<and> e_user_email e = Some userEmail then 1 else 0)"
    by (simp add: opens_join_emails_def length_filter_sum sum_list_product)
  also have "\<dots> = (\<Sum>e\<leftarrow>emails st. \<Sum>ev\<leftarrow>opens st.
         if o_email_id ev = e_id e \<and> e_user_email e = Some userEmail then 1 else 0)"
    by (rule sum_list_exchange)
  also have "\<dots> = (\<Sum>e\<leftarrow>emails st. if e_user_email e = Some userEmail
         then length (opens_of st (e_id e)) else 0)"
    by (intro arg_cong [where f = sum_list] map_cong refl)
      (simp add: opens_of_def length_filter_sum)
  also have "\<dots> = (\<Sum>e\<leftarrow>filter (\<lambda>e. e_user_email e = Some userEmail) (emails st).
         length (opens_of st (e_id e)))"
    by (simp add: sum_list_map_filter')
  finally show ?thesis .
qed

lemma total_clicks_per_email:
  "length (clicks_join_emails st userEmail) =
     (\<Sum>e\<leftarrow>filter (\<lambda>e. e_user_email e = Some userEmail) (emails st). length (clicks_of st (e_id e)))"
proof -
  have "length (clicks_join_emails st userEmail) =
      (\<Sum>c\<leftarrow>clicks st. \<Sum>l\<leftarrow>links st. \<Sum>e\<leftarrow>emails st.
         if c_link_id c = l_id l \<and> l_email_id l = Some (e_id e) \<and> e_user_email e = Some userEmail
         then 1 else 0)"
    by (simp add: clicks_join_emails_def length_filter_sum sum_list_product)
  also have "\<dots> = (\<Sum>c\<leftarrow>clicks st. \<Sum>e\<leftarrow>emails st. \<Sum>l\<leftarrow>links st.
         if c_link_id c = l_id l \<and> l_email_id l = Some (e_id e) \<and> e_user_email e = Some userEmail
         then 1 else 0)"
    by (intro arg_cong [where f = sum_list] map_cong refl sum_list_exchange)
  also have "\<dots> = (\<Sum>e\<leftarrow>emails st. \<Sum>c\<leftarrow>clicks st. \<Sum>l\<leftarrow>links st.
         if c_link_id c = l_id l \<and> l_email_id l = Some (e_id e) \<and> e_user_email e = Some userEmail
         then 1 else 0)"
    by (rule sum_list_exchange)
  also have "\<dots> = (\<Sum>e\<leftarrow>emails st. if e_user_email e = Some userEmail
         then length (clicks_of st (e_id e)) else 0)"
    by (intro arg_cong [where f = sum_list] map_cong refl)
      (simp add: clicks_of_def clicks_join_links_def length_filter_sum sum_list_product
        case_prod_unfold)
  also have "\<dots> = (\<Sum>e\<leftarrow>filter (\<lambda>e. e_user_email e = Some userEmail) (emails st).
         length (clicks_of st (e_id e)))"
    by (simp add: sum_list_map_filter')
  finally show ?thesis .
qed

lemma listing_newest_first:
  "sorted_wrt (\<ge>) (map s_sent_at (emails_query st userEmail))"
proof -
  let ?own = "filter (\<lambda>e. e_user_email e = Some userEmail) (emails st)"
  have "sorted (map e_sent_at (sort_key e_sent_at (rev ?own)))"
    by (rule sorted_sort_key)
  then have "sorted_wrt (\<ge>) (rev (map e_sent_at (sort_key e_sent_at (rev ?own))))"
    by (simp only: sorted_wrt_rev)
  then have "sorted_wrt (\<ge>) (map e_sent_at (order_by_desc e_sent_at ?own))"
    by (simp only: order_by_desc_def rev_map)
  then have "sorted_wrt (\<ge>) (take 100 (map e_sent_at (order_by_desc e_sent_at ?own)))"
    by (rule sorted_wrt_take)
  then show ?thesis
    by (simp add: emails_query_def summary_def o_def take_map)
qed

lemma listing_owned:
  "set (map s_id (emails_query st userEmail)) \<subseteq>
     e_id ` {e \<in> set (emails st). e_user_email e = Some userEmail}"
proof -
  have "set (take 100 (order_by_desc e_sent_at
      (filter (\<lambda>e. e_user_email e = Some userEmail) (emails st)))) \<subseteq>
      {e \<in> set (emails st). e_user_email e = Some userEmail}"
    using set_take_subset by (fastforce simp: order_by_desc_def)
  then show ?thesis
    by (auto simp: emails_query_def summary_def)
qed

text \<open>
  C3 (as amended). The listing returns at most 100 emails of the user, newest first. The
  sums of their open counts and click counts never exceed the totals of the aggregate
  route, and equal them when the user owns at most 100 emails.
\<close>


theorem stats_totals_and_listing_sums:
  assumes "get_api_stats g st userEmail = Json (Aggregate a)"
    and "get_api_emails g' st userEmail = Json (Email_list rows)"
  shows "length rows \<le> 100 \<and>
     sorted_wrt (\<ge>) (map s_sent_at rows) \<and>
     set (map s_id rows) \<subseteq> e_id ` {e \<in> set (emails st). e_user_email e = Some userEmail} \<and>
     sum_list (map open_count rows) \<le> total_opens a \<and>
     sum_list (map click_count rows) \<le> total_clicks a \<and>
     (length (filter (\<lambda>e. e_user_email e = Some userEmail) (emails st)) \<le> 100 \<longrightarrow>
        total_opens a = sum_list (map open_count rows) \<and>
        total_clicks a = sum_list (map click_count rows))"
proof -
  let ?own = "filter (\<lambda>e. e_user_email e = Some userEmail) (emails st)"
  let ?top = "take 100 (order_by_desc e_sent_at ?own)"
  have rows: "rows = emails_query st userEmail"
    using assms(2) by (auto simp: get_api_emails_def split: if_splits)
  have a: "total_opens a = length (opens_join_emails st userEmail)"
    "total_clicks a = length (clicks_join_emails st userEmail)"
    using assms(1) by (auto simp: get_api_stats_def split: if_splits)
  have so: "sum_list (map open_count rows) = (\<Sum>e\<leftarrow>?top. length (opens_of st (e_id e)))"
    by (simp add: rows emails_query_def summary_def o_def)
  have sc: "sum_list (map click_count rows) = (\<Sum>e\<leftarrow>?top. length (clicks_of st (e_id e)))"
    by (simp add: rows emails_query_def summary_def o_def)
  have to: "total_opens a = (\<Sum>e\<leftarrow>order_by_desc e_sent_at ?own. length (opens_of st (e_id e)))"
    by (simp only: a total_opens_per_email sum_list_order_by_desc)
  have tc: "total_clicks a = (\<Sum>e\<leftarrow>order_by_desc e_sent_at ?own. length (clicks_of st (e_id e)))"
    by (simp only: a total_clicks_per_email sum_list_order_by_desc)
  have 1: "length rows \<le> 100"
    by (simp add: rows emails_query_def)
  have 2: "sum_list (map open_count rows) \<le> total_opens a"
    unfolding so to by (rule sum_list_take_le)
  have 3: "sum_list (map click_count rows) \<le> total_clicks a"
    unfolding sc tc by (rule sum_list_take_le)
  have 4: "total_opens a = sum_list (map open_count rows) \<and>
      total_clicks a = sum_list (map click_count rows)"
    if "length ?own \<le> 100"
  proof -
    from that have "?top = order_by_desc e_sent_at ?own"
      by (simp add: order_by_desc_def)
    then show ?thesis
      by (simp only: so sc to tc)
  qed
  show ?thesis
    using 1 2 3 4 listing_newest_first [of st userEmail] listing_owned [of st userEmail]
    unfolding rows by blast
qed

lemma hex_digit_inj:
  assumes "a < 16" and "b < 16"
  shows "hex_digit a = hex_digit b \<longleftrightarrow> a = b"
proof -
  have "distinct ''0123456789abcdef''" by simp
  moreover have "length ''0123456789abcdef'' = 16" by simp
  ultimately show ?thesis
    using assms by (simp add: hex_digit_def nth_eq_iff_index_eq)
qed

lemma crowd_email_id_inj:
  assumes "i < 256" and "j < 256"
  shows "e_id (crowd_email i) = e_id (crowd_email j) \<longleftrightarrow> i = j"
proof -
  have d: "i div 16 < 16" "j div 16 < 16" "i mod 16 < 16" "j mod 16 < 16"
    using assms by simp_all
  have "e_id (crowd_email i) = e_id (crowd_email j) \<longleftrightarrow>
      i div 16 = j div 16 \<and> i mod 16 = j mod 16"
    by (simp add: crowd_email_def hex_digit_inj d)
  also have "\<dots> \<longleftrightarrow> i = j"
    by (metis div_mult_mod_eq)
  finally show ?thesis .
qed

lemma crowd_email_id_0: "e_id (crowd_email 0) = ''0000000000000000''"
  by (simp add: crowd_email_def hex_digit_def)

lemma crowded_store_ids: "distinct (map e_id (emails crowded_store))"
proof -
  have "inj_on (\<lambda>i. e_id (crowd_email i)) (set [0..<101])"
    by (rule inj_onI) (simp add: crowd_email_id_inj)
  then have "distinct (map (\<lambda>i. e_id (crowd_email i)) [0..<101])"
    by (simp add: distinct_map)
  then show ?thesis
    by (simp add: crowded_store_def o_def)
qed

lemma crowded_opens_of:
  "i < 101 \<Longrightarrow> length (opens_of crowded_store (e_id (crowd_email i))) = (if i = 0 then 1 else 0)"
  using crowd_email_id_inj [of 0 i]
  by (auto simp: opens_of_def crowded_store_def crowd_email_id_0)

lemma crowded_owned:
  "filter (\<lambda>e. e_user_email e = Some ''alice@example.com'') (emails crowded_store) =
     map crowd_email [0..<101]"
  by (simp add: crowded_store_def crowd_email_def)

lemma sort_key_rev_sorted:
  assumes "sorted (map k xs)" and "distinct (map k xs)"
  shows "sort_key k (rev xs) = xs"
proof -
  let ?ys = "sort_key k (rev xs)"
  have "distinct (map k ?ys)"
    using assms(2) by (simp only: distinct_map_sort rev_map [symmetric] distinct_rev)
  moreover have "set (map k ?ys) = set (map k xs)"
    by simp
  ultimately have "map k ?ys = map k xs"
    using assms by (intro sorted_distinct_set_unique) simp_all
  moreover have "inj_on k (set ?ys \<union> set xs)"
    using assms(2) by (simp add: distinct_map)
  ultimately show ?thesis
    by (simp add: inj_on_map_eq_map)
qed

lemma crowded_sorted:
  "sort_key e_sent_at (rev (map crowd_email [0..<101])) = map crowd_email [0..<101]"
proof (rule sort_key_rev_sorted)
  have m: "map e_sent_at (map crowd_email [0..<101]) = map (\<lambda>i. 1000 + i) [0..<101]"
    by (simp add: crowd_email_def)
  have "sorted (map (\<lambda>i. 1000 + i) [0..<(101 :: nat)])"
    by (rule sorted_wrt_map_mono [OF sorted_upt]) simp
  then show "sorted (map e_sent_at (map crowd_email [0..<101]))"
    by (simp only: m)
  have "distinct (map (\<lambda>i. 1000 + i) [0..<(101 :: nat)])"
    by (simp add: distinct_map inj_on_def)
  then show "distinct (map e_sent_at (map crowd_email [0..<101]))"
    by (simp only: m)
qed

lemma crowded_listing:
  "emails_query crowded_store ''alice@example.com'' =
     map (summary crowded_store) (rev (map crowd_email [1..<101]))"
proof -
  have "take 100 (rev (map crowd_email [0..<101])) = rev (drop 1 (map crowd_email [0..<101]))"
    by (simp add: take_rev)
  also have "\<dots> = rev (map crowd_email [1..<101])"
    by (simp only: drop_map drop_upt) simp
  finally show ?thesis
    by (simp only: emails_query_def crowded_owned order_by_desc_def crowded_sorted)
qed

text \<open>
  The claim as written fails for a user with 101 emails: the one open belongs to the
  oldest email, which the listing leaves out, so the total is 1 and the sum is 0.
\<close>


theorem stats_totals_counterexample:
  "distinct (map e_id (emails crowded_store)) \<and>
   total_opens_of (get_api_stats (engine_at 6000) crowded_store ''alice@example.com'') = Some 1 \<and>
   listed_opens_of (get_api_emails (engine_at 6000) crowded_store ''alice@example.com'') = Some 0"
proof -
  have "length (opens_join_emails crowded_store ''alice@example.com'') =
      (\<Sum>i\<leftarrow>[0..<101]. length (opens_of crowded_store (e_id (crowd_email i))))"
    by (simp only: total_opens_per_email crowded_owned map_map o_def)
  also have "\<dots> = (\<Sum>i\<leftarrow>[0..<101]. if i = 0 then 1 else 0)"
    by (intro arg_cong [where f = sum_list] map_cong refl) (simp add: crowded_opens_of)
  also have "\<dots> = 1"
  proof -
    have "[0..<101] = 0 # [Suc 0..<101]"
      by (simp add: upt_conv_Cons)
    moreover have "(\<Sum>i\<leftarrow>[Suc 0..<101]. if i = 0 then 1 else 0) = (0::nat)"
      by simp
    ultimately show ?thesis
      by simp
  qed
  finally have t: "length (opens_join_emails crowded_store ''alice@example.com'') = 1" .
  have "sum_list (map open_count (emails_query crowded_store ''alice@example.com'')) =
      (\<Sum>i\<leftarrow>rev [1..<101]. length (opens_of crowded_store (e_id (crowd_email i))))"
    by (simp add: crowded_listing summary_def o_def rev_map)
  also have "\<dots> = (\<Sum>i\<leftarrow>rev [1..<101]. 0)"
    by (intro arg_cong [where f = sum_list] map_cong refl) (simp add: crowded_opens_of)
  also have "\<dots> = 0"
    by simp
  finally have l: "sum_list (map open_count (emails_query crowded_store ''alice@example.com'')) = 0" .
  show ?thesis
    using t l crowded_store_ids
    by (simp add: get_api_stats_def get_api_emails_def engine_at_def)
qed

theorem stats_totals_witness:
  "get_api_stats (engine_at 1400) scenario_store ''alice@example.com'' =
     Json (Aggregate \<lparr>total_emails = 1, total_opens = 1, total_clicks = 2,
                      opensByDay = [(0, 1)]\<rparr>) \<and>
   get_api_emails (engine_at 1400) scenario_store ''alice@example.com'' =
     Json (Email_list
       [\<lparr>s_id = ''abababababababab'', s_subject = Some ''Hello'',
         s_recipient = Some ''bob@example.com'', s_sent_at = 900,
         open_count = 1, last_opened = Some 1100, click_count = 2\<rparr>]) \<and>
   length (filter (\<lambda>e. e_user_email e = Some ''alice@example.com'') (emails scenario_store)) \<le> 100"
proof -
  have a: "get_api_stats (engine_at 1400) scenario_store ''alice@example.com'' =
     Json (Aggregate \<lparr>total_emails = 1, total_opens = 1, total_clicks = 2,
                      opensByDay = [(0, 1)]\<rparr>)"
    by (simp add: get_api_stats_def opens_by_day_def opens_join_emails_def
        clicks_join_emails_def scenario_store_rows engine_at_def DATE_def Let_def)
  have b: "get_api_emails (engine_at 1400) scenario_store ''alice@example.com'' =
     Json (Email_list
       [\<lparr>s_id = ''abababababababab'', s_subject = Some ''Hello'',
         s_recipient = Some ''bob@example.com'', s_sent_at = 900,
         open_count = 1, last_opened = Some 1100, click_count = 2\<rparr>])"
    by (simp add: get_api_emails_def emails_query_def order_by_desc_def summary_def opens_of_def
        clicks_of_def clicks_join_links_def sql_max_def scenario_store_rows engine_at_def)
  show ?thesis
    using stats_totals_and_listing_sums [OF a b] a b by (simp add: scenario_store_rows)
qed

end
